theory Spec2Isabelle
  imports
    Main
    "HOL-Library.Char_ord"
    "HOL-Library.List_Lexorder"
    "HOL-Library.Product_Lexorder"
    "HOL-Library.Multiset"
    "HOL-Library.Sublist"
begin

section \<open>Operon finder: a shallow embedding of operon-finder.py\<close>

text \<open>
  The script reads a whitespace-delimited context table, groups consecutive rows by their
  first column (\<open>blocks_by_query\<close>), chains the rows of each block into clusters
  (\<open>build_operons\<close>) and writes one line per cluster that holds the query together with
  another protein (\<open>main\<close>).

  Text is modelled as \<open>string\<close>, one \<open>char\<close> per code point below 256. Python's
  unbounded integers are \<open>int\<close>. An exception is a value of \<open>py_error\<close>; Python's
  \<open>None\<close> is \<open>None\<close>.
\<close>

subsection \<open>Python built-ins used by the script\<close>

datatype py_error = ValueError | TypeError | IndexError

text \<open>The code points below 256 for which \<open>str.isspace\<close> holds.\<close>

definition is_space :: "char \<Rightarrow> bool" where
  "is_space c \<longleftrightarrow> c \<in> set [CHR 0x09, CHR 0x0A, CHR 0x0B, CHR 0x0C, CHR 0x0D,
                         CHR 0x1C, CHR 0x1D, CHR 0x1E, CHR 0x1F, CHR 0x20,
                         CHR 0x85, CHR 0xA0]"

text \<open>\<open>s.strip()\<close>: leading and trailing whitespace removed.\<close>

definition py_strip :: "string \<Rightarrow> string" where
  "py_strip s = rev (dropWhile is_space (rev (dropWhile is_space s)))"

text \<open>
  \<open>s.split()\<close>: the maximal runs of non-whitespace characters, in order. The first
  argument is the token being read.
\<close>

fun split_ws :: "string \<Rightarrow> string \<Rightarrow> string list" where
  "split_ws tok [] = (if tok = [] then [] else [tok])"
| "split_ws tok (c # cs) =
     (if is_space c then (if tok = [] then split_ws [] cs else tok # split_ws [] cs)
      else split_ws (tok @ [c]) cs)"

definition py_split :: "string \<Rightarrow> string list" where
  "py_split s = split_ws [] s"

text \<open>
  \<open>s.split("|")[0]\<close> is the text before the first bar (all of \<open>s\<close> when there is
  none); \<open>s.split("|", 1)[1]\<close> is the text after the first bar.
\<close>

definition before_bar :: "string \<Rightarrow> string" where
  "before_bar s = takeWhile (\<lambda>c. c \<noteq> CHR ''|'') s"

definition after_bar :: "string \<Rightarrow> string" where
  "after_bar s = drop 1 (dropWhile (\<lambda>c. c \<noteq> CHR ''|'') s)"

text \<open>
  \<open>int(s)\<close> in base ten: surrounding whitespace is ignored, one sign is allowed, then
  decimal digits, where a single underscore may stand between two digits. Anything else
  raises \<open>ValueError\<close>, modelled by \<open>None\<close> here and turned into the exception by the
  caller. The interpreter's optional limit on the number of digits is not modelled.
\<close>

definition digit_val :: "char \<Rightarrow> nat option" where
  "digit_val c = (if c \<in> set ''0123456789'' then Some (of_char c - 48) else None)"

fun parse_digits :: "nat \<Rightarrow> bool \<Rightarrow> string \<Rightarrow> nat option" where
  "parse_digits acc after_digit [] = (if after_digit then Some acc else None)"
| "parse_digits acc after_digit (c # cs) =
     (if c = CHR ''_'' then (if after_digit then parse_digits acc False cs else None)
      else (case digit_val c of
              None \<Rightarrow> None
            | Some d \<Rightarrow> parse_digits (10 * acc + d) True cs))"

definition py_int :: "string \<Rightarrow> int option" where
  "py_int s =
     (case py_strip s of
        [] \<Rightarrow> None
      | c # cs \<Rightarrow>
          if c = CHR ''-'' then map_option (\<lambda>n. - int n) (parse_digits 0 False cs)
          else if c = CHR ''+'' then map_option int (parse_digits 0 False cs)
          else map_option int (parse_digits 0 False (c # cs)))"

text \<open>\<open>str(n)\<close> for an integer: decimal digits, with a minus sign when negative.\<close>

definition digit_char :: "nat \<Rightarrow> char" where
  "digit_char d = ''0123456789'' ! (d mod 10)"

fun str_nat :: "nat \<Rightarrow> string" where
  "str_nat n = (if n < 10 then [digit_char n]
                else str_nat (n div 10) @ [digit_char (n mod 10)])"

declare str_nat.simps [simp del]

definition py_str :: "int \<Rightarrow> string" where
  "py_str i = (if i < 0 then CHR ''-'' # str_nat (nat (- i)) else str_nat (nat i))"

text \<open>\<open>sep.join(xs)\<close> on a list of strings.\<close>

fun join :: "string \<Rightarrow> string list \<Rightarrow> string" where
  "join sep [] = []"
| "join sep [x] = x"
| "join sep (x # y # ys) = x @ sep @ join sep (y # ys)"

text \<open>
  \<open>min(xs)\<close> and \<open>max(xs)\<close> of a sequence of integers; both raise \<open>ValueError\<close> on
  an empty sequence.
\<close>

fun py_min :: "int list \<Rightarrow> py_error + int" where
  "py_min [] = Inl ValueError"
| "py_min (x # xs) = Inr (fold min xs x)"

fun py_max :: "int list \<Rightarrow> py_error + int" where
  "py_max [] = Inl ValueError"
| "py_max (x # xs) = Inr (fold max xs x)"

subsection \<open>The row dictionary and \<open>parse_line\<close>\<close>

text \<open>The dictionary built by \<open>parse_line\<close> has a fixed set of keys: a record.\<close>

record GeneRecord =
  q_full :: string
  q_id :: string
  q_species :: string
  strand :: string
  start :: int
  stop :: int
  prot_id :: string
  contig :: string
  assembly :: string

text \<open>
  \<open>parse_line\<close> returns \<open>None\<close> for a line of fewer than twelve fields, raises
  \<open>ValueError\<close> when \<open>int\<close> rejects column 8 or column 9, and otherwise returns the
  row with \<open>start\<close> and \<open>stop\<close> in ascending order.
\<close>

definition parse_line :: "string \<Rightarrow> py_error + GeneRecord option" where
  "parse_line line =
     (let parts = py_split (py_strip line) in
      if length parts < 12 then Inr None
      else (case py_int (parts ! 7) of
              None \<Rightarrow> Inl ValueError
            | Some a \<Rightarrow>
               (case py_int (parts ! 8) of
                  None \<Rightarrow> Inl ValueError
                | Some b \<Rightarrow>
                    let obj = \<lparr> q_full = parts ! 0,
                                q_id = before_bar (parts ! 0),
                                q_species = (if CHR ''|'' \<in> set (parts ! 0)
                                             then after_bar (parts ! 0) else []),
                                strand = parts ! 3,
                                start = a,
                                stop = b,
                                prot_id = parts ! 9,
                                contig = parts ! 10,
                                assembly = parts ! 11 \<rparr>
                    in if start obj > stop obj
                       then Inr (Some (obj\<lparr> start := stop obj, stop := start obj \<rparr>))
                       else Inr (Some obj))))"

subsection \<open>\<open>blocks_by_query\<close>\<close>

text \<open>
  The generator is modelled by the list of the pairs it yields, in order, together with
  the exception that ended it, if any. The loop state is \<open>current_key\<close> and
  \<open>current\<close>.
\<close>

type_synonym block = "string option \<times> GeneRecord list"

definition yield :: "block \<Rightarrow> block list \<times> py_error option \<Rightarrow> block list \<times> py_error option" where
  "yield b rest = (b # fst rest, snd rest)"

fun blocks_loop ::
  "string option \<Rightarrow> GeneRecord list \<Rightarrow> string list \<Rightarrow> block list \<times> py_error option" where
  "blocks_loop current_key current [] =
     (if current \<noteq> [] then ([(current_key, current)], None) else ([], None))"
| "blocks_loop current_key current (line # lines) =
     (if py_strip line = [] then blocks_loop current_key current lines
      else (case parse_line line of
              Inl e \<Rightarrow> ([], Some e)
            | Inr None \<Rightarrow> blocks_loop current_key current lines
            | Inr (Some row) \<Rightarrow>
                let key = q_full row;
                    current_key1 = (if current_key = None then Some key else current_key)
                in if Some key \<noteq> current_key1
                   then yield (current_key1, current) (blocks_loop (Some key) [row] lines)
                   else blocks_loop current_key1 (current @ [row]) lines))"

definition blocks_by_query :: "string list \<Rightarrow> block list \<times> py_error option" where
  "blocks_by_query lines = blocks_loop None [] lines"

subsection \<open>\<open>build_operons\<close>\<close>

text \<open>
  \<open>sorted\<close> is a stable sort on the key \<open>(contig, start, stop)\<close>; tuples and strings
  compare lexicographically, strings by code point.
\<close>

definition sort_key_of :: "GeneRecord \<Rightarrow> string \<times> int \<times> int" where
  "sort_key_of r = (contig r, start r, stop r)"

definition rows_sorted :: "GeneRecord list \<Rightarrow> GeneRecord list" where
  "rows_sorted rows = sort_key sort_key_of rows"

fun operons_loop ::
  "int \<Rightarrow> bool \<Rightarrow> GeneRecord list list \<Rightarrow> GeneRecord list \<Rightarrow> GeneRecord list
     \<Rightarrow> GeneRecord list list" where
  "operons_loop max_gap require_same_strand operons current [] =
     (if current \<noteq> [] then operons @ [current] else operons)"
| "operons_loop max_gap require_same_strand operons current (r # rs) =
     (if current = [] then operons_loop max_gap require_same_strand operons [r] rs
      else
        let prev = last current in
        if contig r \<noteq> contig prev
        then operons_loop max_gap require_same_strand (operons @ [current]) [r] rs
        else
          let intergenic = start r - stop prev;
              same_strand_ok = (if require_same_strand then strand r = strand prev else True)
          in if intergenic \<le> max_gap \<and> same_strand_ok
             then operons_loop max_gap require_same_strand operons (current @ [r]) rs
             else operons_loop max_gap require_same_strand (operons @ [current]) [r] rs)"

definition build_operons :: "GeneRecord list \<Rightarrow> int \<Rightarrow> bool \<Rightarrow> GeneRecord list list" where
  "build_operons rows max_gap require_same_strand =
     operons_loop max_gap require_same_strand [] [] (rows_sorted rows)"

subsection \<open>\<open>main\<close>: selecting and writing the query's operons\<close>

text \<open>
  Output is the list of strings passed to \<open>out.write\<close>, in order, together with the
  exception that ended the run, if any.
\<close>

definition tab :: string where
  "tab = [CHR 0x09]"

definition newline :: string where
  "newline = [CHR 0x0A]"

definition header :: string where
  "header = join tab [''query_full'', ''query_id'', ''query_species'', ''assembly'', ''contig'',
                      ''operon_start'', ''operon_end'', ''operon_size'',
                      ''members_protein_ids'', ''members_coords'', ''query_in_operon'']
            @ newline"

text \<open>The f-string \<open>prot_id:start-stop\<close> of one member.\<close>

definition member_coords :: "GeneRecord \<Rightarrow> string" where
  "member_coords r = prot_id r @ '':'' @ py_str (start r) @ ''-'' @ py_str (stop r)"

text \<open>
  The text written for one operon (lines 142 to 160). \<open>members[0]\<close> raises
  \<open>IndexError\<close> on an empty list, \<open>min\<close> and \<open>max\<close> raise \<open>ValueError\<close>, and
  \<open>join\<close> raises \<open>TypeError\<close> when the key \<open>qfull\<close> is \<open>None\<close>.
\<close>

definition operon_line ::
  "string option \<Rightarrow> string \<Rightarrow> string \<Rightarrow> string \<Rightarrow> GeneRecord list \<Rightarrow> py_error + string" where
  "operon_line qfull query_id species assembly0 members =
     (case members of
        [] \<Rightarrow> Inl IndexError
      | m0 # _ \<Rightarrow>
         (case py_min (map start members) of
            Inl e \<Rightarrow> Inl e
          | Inr op_start \<Rightarrow>
             (case py_max (map stop members) of
                Inl e \<Rightarrow> Inl e
              | Inr op_end \<Rightarrow>
                 let members_ids = join '','' (map prot_id members);
                     members_coords = join '','' (map member_coords members)
                 in (case qfull of
                       None \<Rightarrow> Inl TypeError
                     | Some qf \<Rightarrow>
                         Inr (join tab [qf, query_id, species, assembly0, contig m0,
                                        py_str op_start, py_str op_end,
                                        py_str (int (length members)),
                                        members_ids, members_coords, ''YES'']
                              @ newline)))))"

definition out_write :: "string \<Rightarrow> string list \<times> py_error option \<Rightarrow> string list \<times> py_error option" where
  "out_write l rest = (l # fst rest, snd rest)"

text \<open>The loop over \<open>query_operons\<close> (lines 134 to 160).\<close>

fun report_loop ::
  "string option \<Rightarrow> string \<Rightarrow> string \<Rightarrow> string \<Rightarrow> GeneRecord list list
     \<Rightarrow> string list \<times> py_error option" where
  "report_loop qfull query_id species assembly0 [] = ([], None)"
| "report_loop qfull query_id species assembly0 (op # ops) =
     (let members = op;
          non_self = filter (\<lambda>r. prot_id r \<noteq> query_id) members
      in if length non_self = 0 then report_loop qfull query_id species assembly0 ops
         else (case operon_line qfull query_id species assembly0 members of
                 Inl e \<Rightarrow> ([], Some e)
               | Inr l \<Rightarrow> out_write l (report_loop qfull query_id species assembly0 ops)))"

text \<open>
  Lines 126 to 160 for the operons of one block: the operons whose set of protein ids
  holds the query id are kept, then reported.
\<close>

definition report_operons ::
  "string option \<Rightarrow> GeneRecord \<Rightarrow> GeneRecord list list \<Rightarrow> string list \<times> py_error option" where
  "report_operons qfull row0 operons =
     (let query_id = q_id row0;
          assembly0 = assembly row0;
          query_operons = filter (\<lambda>op. query_id \<in> set (map prot_id op)) operons
      in report_loop qfull query_id (q_species row0) assembly0 query_operons)"

text \<open>The body of the loop over the blocks (lines 118 to 160).\<close>

definition process_block :: "int \<Rightarrow> bool \<Rightarrow> block \<Rightarrow> string list \<times> py_error option" where
  "process_block max_gap require_same_strand b =
     (case snd b of
        [] \<Rightarrow> ([], None)
      | row0 # _ \<Rightarrow>
          report_operons (fst b) row0 (build_operons (snd b) max_gap require_same_strand))"

fun main_loop :: "int \<Rightarrow> bool \<Rightarrow> block list \<Rightarrow> string list \<times> py_error option" where
  "main_loop max_gap require_same_strand [] = ([], None)"
| "main_loop max_gap require_same_strand (b # bs) =
     (case process_block max_gap require_same_strand b of
        (ls, Some e) \<Rightarrow> (ls, Some e)
      | (ls, None) \<Rightarrow>
          (case main_loop max_gap require_same_strand bs of
             (ls', e) \<Rightarrow> (ls @ ls', e)))"

text \<open>
  \<open>main\<close> on the lines of the input file: the header, then the lines of every block
  the generator yields; an exception of the generator surfaces once the blocks yielded
  before it have been written.
\<close>

definition main :: "int \<Rightarrow> bool \<Rightarrow> string list \<Rightarrow> string list \<times> py_error option" where
  "main max_gap require_same_strand lines =
     (case blocks_by_query lines of
        (blocks, gen_err) \<Rightarrow>
          (case main_loop max_gap require_same_strand blocks of
             (ls, Some e) \<Rightarrow> (header # ls, Some e)
           | (ls, None) \<Rightarrow> (header # ls, gen_err)))"

subsection \<open>Predicates and example data used in the statements\<close>

text \<open>
  The chaining condition between a member \<open>a\<close> and the next row \<open>b\<close>: the
  intergenic distance is at most \<open>max_gap\<close>, and the strands agree when that is required.
\<close>

definition link :: "int \<Rightarrow> bool \<Rightarrow> GeneRecord \<Rightarrow> GeneRecord \<Rightarrow> bool" where
  "link max_gap require_same_strand a b \<longleftrightarrow>
     start b - stop a \<le> max_gap \<and> (require_same_strand \<longrightarrow> strand a = strand b)"

text \<open>What the loop checks before it appends: same contig, and the chaining condition.\<close>

definition chain_step :: "int \<Rightarrow> bool \<Rightarrow> GeneRecord \<Rightarrow> GeneRecord \<Rightarrow> bool" where
  "chain_step g s a b \<longleftrightarrow> contig a = contig b \<and> link g s a b"

text \<open>Two consecutive clusters on one contig are separated by a failed chaining condition.\<close>

definition boundary :: "int \<Rightarrow> bool \<Rightarrow> GeneRecord list \<Rightarrow> GeneRecord list \<Rightarrow> bool" where
  "boundary g s c1 c2 \<longleftrightarrow>
     (contig (last c1) = contig (hd c2) \<longrightarrow> \<not> link g s (last c1) (hd c2))"

text \<open>The clusters of the loop state: the closed ones, then the current one if it has members.\<close>

definition open_list :: "GeneRecord list list \<Rightarrow> GeneRecord list \<Rightarrow> GeneRecord list list" where
  "open_list ops cur = (if cur = [] then ops else ops @ [cur])"

text \<open>Example rows: three genes on contig \<open>C1\<close> and one on \<open>C2\<close>.\<close>

definition ex_row :: "string \<Rightarrow> string \<Rightarrow> int \<Rightarrow> int \<Rightarrow> string \<Rightarrow> string \<Rightarrow> GeneRecord" where
  "ex_row q sd a b p c =
     \<lparr> q_full = q, q_id = before_bar q, q_species = after_bar q, strand = sd,
       start = a, stop = b, prot_id = p, contig = c, assembly = ''GCF_1'' \<rparr>"

definition ex_a1 :: GeneRecord where
  "ex_a1 = ex_row ''Q1#1|E_coli'' ''+'' 100 200 ''N1#1'' ''C1''"

definition ex_a2 :: GeneRecord where
  "ex_a2 = ex_row ''Q1#1|E_coli'' ''+'' 210 260 ''Q1#1'' ''C1''"

definition ex_a3 :: GeneRecord where
  "ex_a3 = ex_row ''Q1#1|E_coli'' ''-'' 400 450 ''N2#1'' ''C1''"

definition ex_a4 :: GeneRecord where
  "ex_a4 = ex_row ''Q1#1|E_coli'' ''-'' 10 50 ''N3#1'' ''C2''"

text \<open>Two rows with one sort key, and two overlapping rows.\<close>

definition ex_d1 :: GeneRecord where
  "ex_d1 = ex_row ''Q1#1|E_coli'' ''+'' 100 200 ''N1#1'' ''C1''"

definition ex_d2 :: GeneRecord where
  "ex_d2 = ex_row ''Q1#1|E_coli'' ''-'' 100 200 ''N2#1'' ''C1''"

definition ex_o1 :: GeneRecord where
  "ex_o1 = ex_row ''Q1#1|E_coli'' ''+'' 100 200 ''N1#1'' ''C1''"

definition ex_o2 :: GeneRecord where
  "ex_o2 = ex_row ''Q1#1|E_coli'' ''+'' 150 250 ''Q1#1'' ''C1''"

text \<open>
  The successfully parsed rows of an input, in input order: the rows \<open>parse_line\<close>
  returns, blank and short lines left out.
\<close>

fun parsed_rows :: "string list \<Rightarrow> GeneRecord list" where
  "parsed_rows [] = []"
| "parsed_rows (l # ls) =
     (case parse_line l of Inr (Some r) \<Rightarrow> r # parsed_rows ls | _ \<Rightarrow> parsed_rows ls)"

text \<open>
  The maximal consecutive runs of rows with one \<open>q_full\<close>: a run is a row followed
  by the longest stretch of rows that carry its key.
\<close>

function maximal_runs :: "GeneRecord list \<Rightarrow> block list" where
  "maximal_runs [] = []"
| "maximal_runs (r # rs) =
     (Some (q_full r), r # takeWhile (\<lambda>x. q_full x = q_full r) rs)
       # maximal_runs (dropWhile (\<lambda>x. q_full x = q_full r) rs)"
  by pat_completeness auto
termination
  by (relation "measure length") (simp_all add: length_dropWhile_le le_imp_less_Suc)

text \<open>A well-formed block: it has rows, and its key is the \<open>q_full\<close> of each of them.\<close>

definition block_ok :: "block \<Rightarrow> bool" where
  "block_ok b \<longleftrightarrow> snd b \<noteq> [] \<and> (\<forall>r\<in>set (snd b). fst b = Some (q_full r))"

text \<open>
  Example lines: three rows with the keys \<open>QA|sp\<close>, \<open>QB|sp\<close>, \<open>QA|sp\<close> (the
  second with its coordinates in descending order), a blank line, a short line, and a
  line whose column 8 is not an integer; and the rows the first three parse to.
\<close>

definition ex_l1 :: string where
  "ex_l1 = ''QA|sp x x + x x x 100 200 P1 C1 G1'' @ newline"

definition ex_l2 :: string where
  "ex_l2 = ''QB|sp x x + x x x 300 250 P2 C1 G1'' @ newline"

definition ex_l3 :: string where
  "ex_l3 = ''QA|sp x x - x x x 500 600 P3 C1 G1'' @ newline"

definition ex_blank :: string where
  "ex_blank = ''  '' @ newline"

definition ex_short :: string where
  "ex_short = ''QA|sp only three'' @ newline"

definition ex_bad :: string where
  "ex_bad = ''QA|sp x x + x x x abc 200 P4 C1 G1'' @ newline"

definition ex_r1 :: GeneRecord where
  "ex_r1 = \<lparr> q_full = ''QA|sp'', q_id = ''QA'', q_species = ''sp'', strand = ''+'',
             start = 100, stop = 200, prot_id = ''P1'', contig = ''C1'', assembly = ''G1'' \<rparr>"

definition ex_r2 :: GeneRecord where
  "ex_r2 = \<lparr> q_full = ''QB|sp'', q_id = ''QB'', q_species = ''sp'', strand = ''+'',
             start = 250, stop = 300, prot_id = ''P2'', contig = ''C1'', assembly = ''G1'' \<rparr>"

definition ex_r3 :: GeneRecord where
  "ex_r3 = \<lparr> q_full = ''QA|sp'', q_id = ''QA'', q_species = ''sp'', strand = ''-'',
             start = 500, stop = 600, prot_id = ''P3'', contig = ''C1'', assembly = ''G1'' \<rparr>"

text \<open>
  A cluster qualifies for the report when it holds the query and another protein.
\<close>

definition qualifying :: "string \<Rightarrow> GeneRecord list \<Rightarrow> bool" where
  "qualifying query_id c \<longleftrightarrow>
     (\<exists>r\<in>set c. prot_id r = query_id) \<and> (\<exists>r\<in>set c. prot_id r \<noteq> query_id)"

text \<open>
  The fields of the record reported for a cluster, as the specification lists them, and
  the line written for it.
\<close>

definition record_fields ::
  "string \<Rightarrow> string \<Rightarrow> string \<Rightarrow> string \<Rightarrow> GeneRecord list \<Rightarrow> string list" where
  "record_fields qf query_id species assembly0 c =
     [qf, query_id, species, assembly0,
      contig (hd c),
      py_str (Min (start ` set c)),
      py_str (Max (stop ` set c)),
      py_str (int (length c)),
      join '','' (map prot_id c),
      join '','' (map member_coords c),
      ''YES'']"

definition record_line ::
  "string \<Rightarrow> string \<Rightarrow> string \<Rightarrow> string \<Rightarrow> GeneRecord list \<Rightarrow> string" where
  "record_line qf query_id species assembly0 c =
     join tab (record_fields qf query_id species assembly0 c) @ newline"

text \<open>
  More example rows: a second self row next to \<open>ex_a4\<close> on contig \<open>C2\<close>, a self row
  alone on \<open>C3\<close>, and a neighbour and a self row too far apart to chain.
\<close>

definition ex_s1 :: GeneRecord where
  "ex_s1 = ex_row ''Q1#1|E_coli'' ''+'' 60 90 ''Q1#1'' ''C2''"

definition ex_s2 :: GeneRecord where
  "ex_s2 = ex_row ''Q1#1|E_coli'' ''+'' 5 9 ''Q1#1'' ''C3''"

definition ex_n :: GeneRecord where
  "ex_n = ex_row ''Q1#1|E_coli'' ''+'' 100 140 ''N1#1'' ''C1''"

definition ex_q :: GeneRecord where
  "ex_q = ex_row ''Q1#1|E_coli'' ''+'' 300 350 ''Q1#1'' ''C1''"

section \<open>Properties of \<open>build_operons\<close>\<close>

subsection \<open>One step of the loop\<close>

lemma operons_loop_start:
  "operons_loop g s ops [] (r # rs) = operons_loop g s ops [r] rs"
  by simp

lemma operons_loop_append:
  "cur \<noteq> [] \<Longrightarrow> contig r = contig (last cur) \<Longrightarrow> link g s (last cur) r \<Longrightarrow>
   operons_loop g s ops cur (r # rs) = operons_loop g s ops (cur @ [r]) rs"
  by (simp add: link_def Let_def)

lemma operons_loop_close:
  "cur \<noteq> [] \<Longrightarrow> \<not> (contig r = contig (last cur) \<and> link g s (last cur) r) \<Longrightarrow>
   operons_loop g s ops cur (r # rs) = operons_loop g s (ops @ [cur]) [r] rs"
  by (auto simp add: link_def Let_def)

lemma operons_loop_cases:
  obtains (start) "cur = []"
      "operons_loop g s ops cur (r # rs) = operons_loop g s ops [r] rs"
  | (append) "cur \<noteq> []" "contig r = contig (last cur)" "link g s (last cur) r"
      "operons_loop g s ops cur (r # rs) = operons_loop g s ops (cur @ [r]) rs"
  | (close) "cur \<noteq> []" "\<not> (contig r = contig (last cur) \<and> link g s (last cur) r)"
      "operons_loop g s ops cur (r # rs) = operons_loop g s (ops @ [cur]) [r] rs"
proof (cases "cur = []")
  case True
  then show ?thesis using start by simp
next
  case ne: False
  show ?thesis
  proof (cases "contig r = contig (last cur) \<and> link g s (last cur) r")
    case True
    then show ?thesis using ne append operons_loop_append[of cur r g s ops rs] by blast
  next
    case False
    then show ?thesis using ne close operons_loop_close[of cur r g s ops rs] by blast
  qed
qed

declare operons_loop.simps(2) [simp del]

lemma concat_operons_loop:
  "concat (operons_loop g s ops cur rs) = concat ops @ cur @ rs"
proof (induction rs arbitrary: ops cur)
  case Nil
  show ?case by simp
next
  case (Cons r rs)
  show ?case
    by (cases rule: operons_loop_cases[of cur g s ops r rs]) (simp_all add: Cons.IH)
qed

lemma operons_loop_nonempty:
  "[] \<notin> set ops \<Longrightarrow> [] \<notin> set (operons_loop g s ops cur rs)"
proof (induction rs arbitrary: ops cur)
  case Nil
  then show ?case by simp
next
  case (Cons r rs)
  show ?case
    by (cases rule: operons_loop_cases[of cur g s ops r rs])
       (use Cons.prems in \<open>simp_all add: Cons.IH\<close>)
qed

lemma operons_loop_chained:
  "\<forall>c\<in>set ops. successively (chain_step g s) c \<Longrightarrow> successively (chain_step g s) cur \<Longrightarrow>
   \<forall>c\<in>set (operons_loop g s ops cur rs). successively (chain_step g s) c"
proof (induction rs arbitrary: ops cur)
  case Nil
  then show ?case by simp
next
  case (Cons r rs)
  show ?case
  proof (cases rule: operons_loop_cases[of cur g s ops r rs])
    case start
    with Cons.IH[of ops "[r]"] Cons.prems(1) show ?thesis by simp
  next
    case append
    with Cons.prems(2) have "successively (chain_step g s) (cur @ [r])"
      by (simp add: successively_append_iff chain_step_def)
    with Cons.IH[of ops "cur @ [r]"] Cons.prems(1) append(4) show ?thesis by simp
  next
    case close
    from Cons.prems(1,2) have "\<forall>c\<in>set (ops @ [cur]). successively (chain_step g s) c"
      by simp
    with Cons.IH[of "ops @ [cur]" "[r]"] close(3) show ?thesis by simp
  qed
qed

lemma operons_loop_boundaries:
  "[] \<notin> set ops \<Longrightarrow> (cur = [] \<longrightarrow> ops = []) \<Longrightarrow>
   successively (boundary g s) (open_list ops cur) \<Longrightarrow>
   successively (boundary g s) (operons_loop g s ops cur rs)"
proof (induction rs arbitrary: ops cur)
  case Nil
  then show ?case by (simp add: open_list_def split: if_splits)
next
  case (Cons r rs)
  show ?case
  proof (cases rule: operons_loop_cases[of cur g s ops r rs])
    case start
    with Cons.prems have "ops = []" by simp
    with start Cons.IH[of "[]" "[r]"] show ?thesis
      by (simp add: open_list_def)
  next
    case append
    with Cons.prems(3) have "successively (boundary g s) (open_list ops (cur @ [r]))"
      by (simp add: open_list_def successively_append_iff boundary_def)
    with Cons.IH[of ops "cur @ [r]"] Cons.prems(1) append(4) show ?thesis by simp
  next
    case close
    then have b: "boundary g s cur [r]"
      by (simp add: boundary_def)
    from close(1) Cons.prems(3) b
    have "successively (boundary g s) (open_list (ops @ [cur]) [r])"
      by (simp add: open_list_def successively_append_iff)
    with Cons.IH[of "ops @ [cur]" "[r]"] Cons.prems(1) close(1,3) show ?thesis by simp
  qed
qed

lemma successively_same:
  "successively (\<lambda>a b. f a = f b) xs \<Longrightarrow> a \<in> set xs \<Longrightarrow> b \<in> set xs \<Longrightarrow> f a = f b"
proof (induction xs arbitrary: a b)
  case Nil
  then show ?case by simp
next
  case (Cons x xs)
  have hd_eq: "\<And>y. y \<in> set xs \<Longrightarrow> f x = f y"
  proof -
    fix y assume y: "y \<in> set xs"
    then have "xs \<noteq> []" by auto
    with Cons.prems(1) have "f x = f (hd xs)" "successively (\<lambda>a b. f a = f b) xs"
      by (auto simp: successively_Cons)
    moreover have "hd xs \<in> set xs" using \<open>xs \<noteq> []\<close> by simp
    ultimately show "f x = f y" using Cons.IH[of "hd xs" y] y by simp
  qed
  from Cons.prems(1) have tl: "successively (\<lambda>a b. f a = f b) xs"
    by (auto simp: successively_Cons)
  from Cons.prems(2,3) consider "a = x" "b = x" | "a = x" "b \<in> set xs"
    | "a \<in> set xs" "b = x" | "a \<in> set xs" "b \<in> set xs" by auto
  then show ?case
  proof cases
    case 1 then show ?thesis by simp
  next
    case 2 then show ?thesis using hd_eq[of b] by blast
  next
    case 3 then show ?thesis using hd_eq[of a] by metis
  next
    case 4 then show ?thesis using Cons.IH[OF tl] by blast
  qed
qed


lemma build_operons_concat:
  "concat (build_operons rows g s) = rows_sorted rows"
  by (simp add: build_operons_def concat_operons_loop)

lemma build_operons_chained:
  "c \<in> set (build_operons rows g s) \<Longrightarrow> successively (chain_step g s) c"
  using operons_loop_chained[of "[]" g s "[]" "rows_sorted rows"]
  by (simp add: build_operons_def)

lemma build_operons_boundaries:
  "successively (boundary g s) (build_operons rows g s)"
  using operons_loop_boundaries[of "[]" "[]" g s "rows_sorted rows"]
  by (simp add: build_operons_def open_list_def)

lemma ex_build: "build_operons [ex_a4, ex_a3, ex_a2, ex_a1] 50 False = [[ex_a1, ex_a2], [ex_a3], [ex_a4]]"
  by code_simp

text \<open>
  C1. In every cluster returned by \<open>build_operons\<close>, each member and its successor
  satisfy the chaining condition (distance at most \<open>max_gap\<close>, equal strands when
  required); and where the last member of a cluster and the first member of the next
  cluster lie on one contig, that pair violates the condition. This holds for every
  \<open>max_gap\<close>, negative ones included.
\<close>

theorem build_operons_adjacency:
  "(\<forall>c\<in>set (build_operons rows max_gap require_same_strand).
      \<forall>i. Suc i < length c \<longrightarrow> link max_gap require_same_strand (c ! i) (c ! Suc i))
   \<and> (\<forall>j. Suc j < length (build_operons rows max_gap require_same_strand) \<longrightarrow>
          contig (last (build_operons rows max_gap require_same_strand ! j))
            = contig (hd (build_operons rows max_gap require_same_strand ! Suc j)) \<longrightarrow>
          \<not> link max_gap require_same_strand
               (last (build_operons rows max_gap require_same_strand ! j))
               (hd (build_operons rows max_gap require_same_strand ! Suc j)))"
proof (intro conjI ballI allI impI)
  fix c i
  assume c: "c \<in> set (build_operons rows max_gap require_same_strand)" and i: "Suc i < length c"
  from c have "successively (chain_step max_gap require_same_strand) c"
    by (rule build_operons_chained)
  from successively_nth[OF this i] show "link max_gap require_same_strand (c ! i) (c ! Suc i)"
    by (simp add: chain_step_def)
next
  fix j
  let ?ops = "build_operons rows max_gap require_same_strand"
  assume j: "Suc j < length ?ops" and same: "contig (last (?ops ! j)) = contig (hd (?ops ! Suc j))"
  from successively_nth[OF build_operons_boundaries j] same
  show "\<not> link max_gap require_same_strand (last (?ops ! j)) (hd (?ops ! Suc j))"
    by (simp add: boundary_def)
qed

theorem build_operons_adjacency_witness:
  "[ex_a1, ex_a2] \<in> set (build_operons [ex_a4, ex_a3, ex_a2, ex_a1] 50 False)
   \<and> link 50 False ex_a1 ex_a2
   \<and> contig ex_a2 = contig ex_a3
   \<and> \<not> link 50 False ex_a2 ex_a3"
proof -
  note t = build_operons_adjacency[of "[ex_a4, ex_a3, ex_a2, ex_a1]" 50 False, unfolded ex_build]
  have 1: "link 50 False ex_a1 ex_a2"
    using conjunct1[OF t, THEN bspec, of "[ex_a1, ex_a2]", THEN spec, of 0] by simp
  have 2: "contig ex_a2 = contig ex_a3"
    by (simp add: ex_a2_def ex_a3_def ex_row_def)
  have 3: "\<not> link 50 False ex_a2 ex_a3"
    using conjunct2[OF t, THEN spec, of 0] 2 by simp
  show ?thesis using 1 2 3 by (simp add: ex_build)
qed

lemma build_operons_nonempty: "[] \<notin> set (build_operons rows g s)"
  using operons_loop_nonempty[of "[]" g s "[]" "rows_sorted rows"]
  by (simp add: build_operons_def)

lemma build_operons_same_contig:
  assumes "c \<in> set (build_operons rows g s)" "a \<in> set c" "b \<in> set c"
  shows "contig a = contig b"
proof -
  from assms(1) have "successively (chain_step g s) c" by (rule build_operons_chained)
  then have "successively (\<lambda>a b. contig a = contig b) c"
    by (rule successively_mono) (simp add: chain_step_def)
  from successively_same[OF this assms(2,3)] show ?thesis .
qed

lemma build_operons_mset: "mset (concat (build_operons rows g s)) = mset rows"
  by (simp add: build_operons_concat rows_sorted_def)

lemma unique_cluster:
  assumes d: "distinct (concat ops)" and ne: "[] \<notin> set ops" and r: "r \<in> set (concat ops)"
  shows "\<exists>!j. j < length ops \<and> r \<in> set (ops ! j)"
proof -
  from r obtain c where c: "c \<in> set ops" "r \<in> set c" by auto
  then obtain j where j: "j < length ops" "ops ! j = c" by (auto simp: in_set_conv_nth)
  from d ne have dist: "distinct ops" by (simp add: distinct_concat_iff)
  from d have disj: "\<And>ys zs. ys \<in> set ops \<Longrightarrow> zs \<in> set ops \<Longrightarrow> ys \<noteq> zs \<Longrightarrow> set ys \<inter> set zs = {}"
    by (simp add: distinct_concat_iff)
  show ?thesis
  proof (rule ex1I[of _ j])
    show "j < length ops \<and> r \<in> set (ops ! j)" using j c by simp
  next
    fix k assume "k < length ops \<and> r \<in> set (ops ! k)"
    then have k: "k < length ops" "r \<in> set (ops ! k)" by simp_all
    show "k = j"
    proof (rule ccontr)
      assume "k \<noteq> j"
      with dist k(1) j(1) have "ops ! k \<noteq> ops ! j" by (simp add: nth_eq_iff_index_eq)
      with disj[of "ops ! k" "ops ! j"] k(1) j(1)
      have "set (ops ! k) \<inter> set (ops ! j) = {}" by simp
      with k(2) j(2) c(2) show False by auto
    qed
  qed
qed

text \<open>
  C7. Every cluster returned by \<open>build_operons\<close> is non-empty and its members share
  one contig. The clusters, concatenated, are the sorted block, so they hold the rows of
  the block with the same multiplicities; when the rows of the block are pairwise
  different, each row lies in exactly one cluster.
\<close>

theorem build_operons_partition:
  "(\<forall>c\<in>set (build_operons rows max_gap require_same_strand).
      c \<noteq> [] \<and> (\<forall>a\<in>set c. \<forall>b\<in>set c. contig a = contig b))
   \<and> concat (build_operons rows max_gap require_same_strand) = rows_sorted rows
   \<and> mset (concat (build_operons rows max_gap require_same_strand)) = mset rows
   \<and> (distinct rows \<longrightarrow>
        (\<forall>r\<in>set rows. \<exists>!j. j < length (build_operons rows max_gap require_same_strand)
                              \<and> r \<in> set (build_operons rows max_gap require_same_strand ! j)))"
proof (intro conjI ballI impI)
  fix c assume "c \<in> set (build_operons rows max_gap require_same_strand)"
  then show "c \<noteq> []" using build_operons_nonempty[of rows max_gap require_same_strand] by auto
next
  fix c a b
  assume "c \<in> set (build_operons rows max_gap require_same_strand)" "a \<in> set c" "b \<in> set c"
  then show "contig a = contig b" by (rule build_operons_same_contig)
next
  show "concat (build_operons rows max_gap require_same_strand) = rows_sorted rows"
    by (rule build_operons_concat)
next
  show "mset (concat (build_operons rows max_gap require_same_strand)) = mset rows"
    by (rule build_operons_mset)
next
  fix r assume d: "distinct rows" and r: "r \<in> set rows"
  let ?ops = "build_operons rows max_gap require_same_strand"
  from d have "distinct (concat ?ops)"
    by (simp add: build_operons_concat rows_sorted_def)
  moreover from r have "r \<in> set (concat ?ops)"
    by (simp only: build_operons_concat rows_sorted_def set_sort)
  ultimately show "\<exists>!j. j < length ?ops \<and> r \<in> set (?ops ! j)"
    using build_operons_nonempty[of rows max_gap require_same_strand]
    by (intro unique_cluster)
qed

lemma ex_distinct: "distinct [ex_a4, ex_a3, ex_a2, ex_a1]"
  by (simp add: ex_a1_def ex_a2_def ex_a3_def ex_a4_def ex_row_def)

theorem build_operons_partition_witness:
  "[ex_a1, ex_a2] \<in> set (build_operons [ex_a4, ex_a3, ex_a2, ex_a1] 50 False)
   \<and> contig ex_a1 = contig ex_a2
   \<and> concat [[ex_a1, ex_a2], [ex_a3], [ex_a4]] = rows_sorted [ex_a4, ex_a3, ex_a2, ex_a1]
   \<and> distinct [ex_a4, ex_a3, ex_a2, ex_a1]
   \<and> (\<exists>!j. j < length [[ex_a1, ex_a2], [ex_a3], [ex_a4]]
             \<and> ex_a2 \<in> set ([[ex_a1, ex_a2], [ex_a3], [ex_a4]] ! j))"
proof -
  note t = build_operons_partition[of "[ex_a4, ex_a3, ex_a2, ex_a1]" 50 False, unfolded ex_build]
  have 1: "contig ex_a1 = contig ex_a2"
    using conjunct1[OF t, THEN bspec, of "[ex_a1, ex_a2]", THEN conjunct2,
                    THEN bspec, of ex_a1, THEN bspec, of ex_a2]
    by simp
  have 2: "concat [[ex_a1, ex_a2], [ex_a3], [ex_a4]] = rows_sorted [ex_a4, ex_a3, ex_a2, ex_a1]"
    using conjunct1[OF conjunct2[OF t]] .
  have 3: "\<exists>!j. j < length [[ex_a1, ex_a2], [ex_a3], [ex_a4]]
             \<and> ex_a2 \<in> set ([[ex_a1, ex_a2], [ex_a3], [ex_a4]] ! j)"
    using conjunct2[OF conjunct2[OF conjunct2[OF t]], THEN mp, OF ex_distinct,
                    THEN bspec, of ex_a2]
    by simp
  have 4: "[ex_a1, ex_a2] \<in> set (build_operons [ex_a4, ex_a3, ex_a2, ex_a1] 50 False)"
    by (simp add: ex_build)
  from 4 1 2 ex_distinct 3 show ?thesis by (intro conjI)
qed

lemma ex_dup_build: "build_operons [ex_d2, ex_d1] 50 False = [[ex_d2, ex_d1]]"
  by code_simp

text \<open>
  C9. The sort in \<open>build_operons\<close> is stable: the rows with a given key
  \<open>(contig, start, stop)\<close> occur in the clusters, read in order, exactly in the order
  they have in the block; and the rows are in ascending key order.
\<close>

theorem build_operons_stable:
  "filter (\<lambda>r. sort_key_of r = k) (concat (build_operons rows max_gap require_same_strand))
     = filter (\<lambda>r. sort_key_of r = k) rows
   \<and> sorted (map sort_key_of (concat (build_operons rows max_gap require_same_strand)))"
  by (simp add: build_operons_concat rows_sorted_def sort_key_stable)

theorem build_operons_stable_witness:
  "sort_key_of ex_d1 = sort_key_of ex_d2 \<and> ex_d1 \<noteq> ex_d2
   \<and> build_operons [ex_d2, ex_d1] 50 False = [[ex_d2, ex_d1]]
   \<and> filter (\<lambda>r. sort_key_of r = (''C1'', 100, 200)) (concat (build_operons [ex_d2, ex_d1] 50 False))
       = [ex_d2, ex_d1]"
  using build_operons_stable[of "(''C1'', 100, 200)" "[ex_d2, ex_d1]" 50 False]
  by (simp add: ex_dup_build) (simp add: sort_key_of_def ex_d1_def ex_d2_def ex_row_def)


lemma ex_overlap_loop:
  "operons_loop 0 False [] [ex_o1] [ex_o2] = [[ex_o1, ex_o2]]"
  by code_simp

text \<open>
  C10. With a non-negative \<open>max_gap\<close>, a row on the contig of the last member of the
  current cluster that starts at or before that member's stop, and passes the strand
  check, is appended to the current cluster; hence no cluster of the result begins with
  such a row after the previous cluster.
\<close>

theorem overlap_never_splits:
  assumes "0 \<le> max_gap"
  shows "(current \<noteq> [] \<and> contig r = contig (last current) \<and> start r \<le> stop (last current)
          \<and> (require_same_strand \<longrightarrow> strand r = strand (last current)) \<longrightarrow>
          operons_loop max_gap require_same_strand operons current (r # rs)
            = operons_loop max_gap require_same_strand operons (current @ [r]) rs)
         \<and> (\<forall>j. Suc j < length (build_operons rows max_gap require_same_strand) \<longrightarrow>
               \<not> (contig (hd (build_operons rows max_gap require_same_strand ! Suc j))
                     = contig (last (build_operons rows max_gap require_same_strand ! j))
                   \<and> start (hd (build_operons rows max_gap require_same_strand ! Suc j))
                       \<le> stop (last (build_operons rows max_gap require_same_strand ! j))
                   \<and> (require_same_strand \<longrightarrow>
                        strand (hd (build_operons rows max_gap require_same_strand ! Suc j))
                          = strand (last (build_operons rows max_gap require_same_strand ! j)))))"
proof (intro conjI allI impI)
  assume a: "current \<noteq> [] \<and> contig r = contig (last current) \<and> start r \<le> stop (last current)
          \<and> (require_same_strand \<longrightarrow> strand r = strand (last current))"
  with assms have "link max_gap require_same_strand (last current) r"
    by (auto simp: link_def)
  with a show "operons_loop max_gap require_same_strand operons current (r # rs)
            = operons_loop max_gap require_same_strand operons (current @ [r]) rs"
    by (simp add: operons_loop_append)
next
  fix j
  let ?ops = "build_operons rows max_gap require_same_strand"
  assume j: "Suc j < length ?ops"
  from successively_nth[OF build_operons_boundaries j]
  have b: "boundary max_gap require_same_strand (?ops ! j) (?ops ! Suc j)" .
  show "\<not> (contig (hd (?ops ! Suc j)) = contig (last (?ops ! j))
            \<and> start (hd (?ops ! Suc j)) \<le> stop (last (?ops ! j))
            \<and> (require_same_strand \<longrightarrow> strand (hd (?ops ! Suc j)) = strand (last (?ops ! j))))"
  proof
    assume c: "contig (hd (?ops ! Suc j)) = contig (last (?ops ! j))
            \<and> start (hd (?ops ! Suc j)) \<le> stop (last (?ops ! j))
            \<and> (require_same_strand \<longrightarrow> strand (hd (?ops ! Suc j)) = strand (last (?ops ! j)))"
    with assms have "link max_gap require_same_strand (last (?ops ! j)) (hd (?ops ! Suc j))"
      by (auto simp: link_def)
    with b c show False by (simp add: boundary_def)
  qed
qed

theorem overlap_never_splits_witness:
  "(0::int) \<le> 0 \<and> contig ex_o2 = contig ex_o1 \<and> start ex_o2 \<le> stop ex_o1
   \<and> operons_loop 0 False [] [ex_o1] [ex_o2] = operons_loop 0 False [] [ex_o1, ex_o2] []
   \<and> operons_loop 0 False [] [ex_o1, ex_o2] [] = [[ex_o1, ex_o2]]
   \<and> \<not> (contig ex_a3 = contig ex_a2 \<and> start ex_a3 \<le> stop ex_a2)"
proof -
  have z: "(0::int) \<le> 0" by simp
  have 1: "contig ex_o2 = contig ex_o1" "start ex_o2 \<le> stop ex_o1"
    by (simp_all add: ex_o1_def ex_o2_def ex_row_def)
  have 2: "operons_loop 0 False [] [ex_o1] [ex_o2] = operons_loop 0 False [] [ex_o1, ex_o2] []"
    using overlap_never_splits[OF z, of "[ex_o1]" ex_o2 False "[]" "[]" "[]", THEN conjunct1] 1
    by simp
  have 3: "operons_loop 0 False [] [ex_o1, ex_o2] [] = [[ex_o1, ex_o2]]" by simp
  have 4: "\<not> (contig ex_a3 = contig ex_a2 \<and> start ex_a3 \<le> stop ex_a2)"
  proof -
    have z50: "(0::int) \<le> 50" by simp
    show ?thesis
      using overlap_never_splits[OF z50, of "[ex_o1]" ex_o2 False "[]" "[]"
               "[ex_a4, ex_a3, ex_a2, ex_a1]", THEN conjunct2, THEN spec, of 0]
      by (simp add: ex_build)
  qed
  from z 1 2 3 4 show ?thesis by (intro conjI)
qed

section \<open>Properties of \<open>parse_line\<close> and \<open>blocks_by_query\<close>\<close>

lemma parse_line_blank: "py_strip line = [] \<Longrightarrow> parse_line line = Inr None"
  by (simp add: parse_line_def py_split_def)

lemma blocks_loop_same:
  "py_strip line \<noteq> [] \<Longrightarrow> parse_line line = Inr (Some row) \<Longrightarrow>
   ck = None \<or> ck = Some (q_full row) \<Longrightarrow>
   blocks_loop ck cur (line # lines) = blocks_loop (Some (q_full row)) (cur @ [row]) lines"
  by (auto simp: Let_def)

lemma blocks_loop_new:
  "py_strip line \<noteq> [] \<Longrightarrow> parse_line line = Inr (Some row) \<Longrightarrow>
   ck = Some k \<Longrightarrow> k \<noteq> q_full row \<Longrightarrow>
   blocks_loop ck cur (line # lines)
     = yield (ck, cur) (blocks_loop (Some (q_full row)) [row] lines)"
  by (simp add: Let_def)

lemma blocks_loop_cases:
  obtains (skip) "parse_line line = Inr None"
      "blocks_loop ck cur (line # lines) = blocks_loop ck cur lines"
  | (raise) e where "parse_line line = Inl e"
      "blocks_loop ck cur (line # lines) = ([], Some e)"
  | (same) row where "parse_line line = Inr (Some row)" "ck = None \<or> ck = Some (q_full row)"
      "blocks_loop ck cur (line # lines) = blocks_loop (Some (q_full row)) (cur @ [row]) lines"
  | (new) row where "parse_line line = Inr (Some row)" "ck \<noteq> None" "ck \<noteq> Some (q_full row)"
      "blocks_loop ck cur (line # lines)
         = yield (ck, cur) (blocks_loop (Some (q_full row)) [row] lines)"
proof (cases "py_strip line = []")
  case True
  then show ?thesis using skip parse_line_blank[of line] by simp
next
  case nb: False
  show ?thesis
  proof (cases "parse_line line")
    case (Inl e)
    then show ?thesis using nb raise by simp
  next
    case (Inr ro)
    show ?thesis
    proof (cases ro)
      case None
      then show ?thesis using nb Inr skip by simp
    next
      case (Some row)
      show ?thesis
      proof (cases "ck = None \<or> ck = Some (q_full row)")
        case True
        from blocks_loop_same[OF nb _ True, of cur lines] Inr Some True
        show ?thesis using same[of row] by blast
      next
        case False
        then obtain k where k: "ck = Some k" "k \<noteq> q_full row" by (cases ck) auto
        from blocks_loop_new[OF nb _ k, of cur lines] Inr Some False
        show ?thesis using new[of row] by blast
      qed
    qed
  qed
qed

declare blocks_loop.simps(2) [simp del]

lemma fst_yield [simp]: "fst (yield b rest) = b # fst rest"
  by (simp add: yield_def)

lemma snd_yield [simp]: "snd (yield b rest) = snd rest"
  by (simp add: yield_def)

lemma blocks_loop_concat:
  "snd (blocks_loop ck cur lines) = None \<Longrightarrow>
   concat (map snd (fst (blocks_loop ck cur lines))) = cur @ parsed_rows lines"
proof (induction lines arbitrary: ck cur)
  case Nil
  then show ?case by simp
next
  case (Cons line lines)
  show ?case
  proof (cases rule: blocks_loop_cases[of line ck cur lines])
    case skip
    with Cons show ?thesis by simp
  next
    case (raise e)
    with Cons.prems show ?thesis by simp
  next
    case (same row)
    with Cons show ?thesis by simp
  next
    case (new row)
    with Cons show ?thesis by simp
  qed
qed

lemma blocks_loop_no_error:
  "snd (blocks_loop ck cur lines) = None \<longleftrightarrow> (\<forall>l\<in>set lines. parse_line l \<noteq> Inl ValueError)"
proof (induction lines arbitrary: ck cur)
  case Nil
  show ?case by simp
next
  case (Cons line lines)
  show ?case
  proof (cases rule: blocks_loop_cases[of line ck cur lines])
    case skip
    with Cons show ?thesis by simp
  next
    case (raise e)
    moreover have "e = ValueError"
      using raise(1) by (auto simp: parse_line_def Let_def split: if_splits option.splits)
    ultimately show ?thesis by simp
  next
    case (same row)
    with Cons show ?thesis by simp
  next
    case (new row)
    with Cons show ?thesis by simp
  qed
qed

lemma block_ok_append:
  assumes "cur = [] \<longrightarrow> ck = None" "cur \<noteq> [] \<longrightarrow> block_ok (ck, cur)"
    "ck = None \<or> ck = Some (q_full row)"
  shows "block_ok (Some (q_full row), cur @ [row])"
proof (cases "cur = []")
  case True
  then show ?thesis by (simp add: block_ok_def)
next
  case False
  with assms(2) have ok: "block_ok (ck, cur)" by simp
  with False assms(3) have "ck = Some (q_full row)" by (auto simp: block_ok_def)
  with ok show ?thesis by (simp add: block_ok_def)
qed

lemma blocks_loop_keys:
  "(cur = [] \<longrightarrow> ck = None) \<Longrightarrow> (cur \<noteq> [] \<longrightarrow> block_ok (ck, cur)) \<Longrightarrow>
   \<forall>b\<in>set (fst (blocks_loop ck cur lines)). block_ok b"
proof (induction lines arbitrary: ck cur)
  case Nil
  then show ?case by simp
next
  case (Cons line lines)
  show ?case
  proof (cases rule: blocks_loop_cases[of line ck cur lines])
    case skip
    with Cons show ?thesis by simp
  next
    case (raise e)
    then show ?thesis by simp
  next
    case (same row)
    from block_ok_append[OF Cons.prems same(2)]
    have "block_ok (Some (q_full row), cur @ [row])" .
    with Cons.IH[of "cur @ [row]" "Some (q_full row)"] same(3) show ?thesis by simp
  next
    case (new row)
    from new(2) Cons.prems have ok: "block_ok (ck, cur)" by auto
    have "block_ok (Some (q_full row), [row])" by (simp add: block_ok_def)
    with Cons.IH[of "[row]" "Some (q_full row)"]
    have "\<forall>b\<in>set (fst (blocks_loop (Some (q_full row)) [row] lines)). block_ok b" by simp
    with ok new(4) show ?thesis by simp
  qed
qed

text \<open>With members in current and a key, the first block yielded carries that key.\<close>

lemma blocks_loop_hd_key:
  "cur \<noteq> [] \<Longrightarrow> b \<in> set (take 1 (fst (blocks_loop (Some k) cur lines))) \<Longrightarrow> fst b = Some k"
proof (induction lines arbitrary: cur)
  case Nil
  then show ?case by simp
next
  case (Cons line lines)
  show ?case
  proof (cases rule: blocks_loop_cases[of line "Some k" cur lines])
    case skip
    with Cons show ?thesis by simp
  next
    case (raise e)
    with Cons.prems show ?thesis by simp
  next
    case (same row)
    then have "q_full row = k" by simp
    with Cons.IH[of "cur @ [row]"] Cons.prems same(3) show ?thesis by simp
  next
    case (new row)
    with Cons.prems show ?thesis by simp
  qed
qed

lemma blocks_loop_adjacent:
  "(cur = [] \<longrightarrow> ck = None) \<Longrightarrow>
   successively (\<lambda>b1 b2. fst b1 \<noteq> fst b2) (fst (blocks_loop ck cur lines))"
proof (induction lines arbitrary: ck cur)
  case Nil
  then show ?case by simp
next
  case (Cons line lines)
  show ?case
  proof (cases rule: blocks_loop_cases[of line ck cur lines])
    case skip
    with Cons show ?thesis by simp
  next
    case (raise e)
    then show ?thesis by simp
  next
    case (same row)
    with Cons.IH[of "cur @ [row]" "Some (q_full row)"] show ?thesis by simp
  next
    case (new row)
    let ?ys = "fst (blocks_loop (Some (q_full row)) [row] lines)"
    have tl: "successively (\<lambda>b1 b2. fst b1 \<noteq> fst b2) ?ys"
      by (rule Cons.IH) simp
    have "?ys = [] \<or> fst (hd ?ys) = Some (q_full row)"
    proof (cases ?ys)
      case Nil
      then show ?thesis by simp
    next
      case ys: (Cons y ys')
      then have "y \<in> set (take 1 ?ys)" by simp
      from blocks_loop_hd_key[OF _ this] ys show ?thesis by simp
    qed
    with new(3) have "?ys = [] \<or> fst (ck, cur) \<noteq> fst (hd ?ys)" by auto
    with tl new(4) show ?thesis by (simp add: successively_Cons)
  qed
qed


lemma maximal_runs_prefix:
  assumes "cur \<noteq> []" "\<forall>r\<in>set cur. q_full r = k"
  shows "maximal_runs (cur @ xs)
           = (Some k, cur @ takeWhile (\<lambda>x. q_full x = k) xs)
               # maximal_runs (dropWhile (\<lambda>x. q_full x = k) xs)"
proof (cases cur)
  case Nil
  with assms(1) show ?thesis by simp
next
  case (Cons c cs)
  with assms(2) have k: "q_full c = k" and cs: "\<forall>r\<in>set cs. q_full r = k" by simp_all
  from cs have "takeWhile (\<lambda>x. q_full x = k) (cs @ xs) = cs @ takeWhile (\<lambda>x. q_full x = k) xs"
    and "dropWhile (\<lambda>x. q_full x = k) (cs @ xs) = dropWhile (\<lambda>x. q_full x = k) xs"
    by (simp_all add: takeWhile_append2 dropWhile_append2)
  with Cons k show ?thesis by simp
qed

lemma blocks_loop_runs_open:
  "cur \<noteq> [] \<Longrightarrow> \<forall>r\<in>set cur. q_full r = k \<Longrightarrow> snd (blocks_loop (Some k) cur lines) = None \<Longrightarrow>
   fst (blocks_loop (Some k) cur lines) = maximal_runs (cur @ parsed_rows lines)"
proof (induction lines arbitrary: cur k)
  case Nil
  from maximal_runs_prefix[OF Nil(1,2), of "[]"] Nil(1) show ?case by simp
next
  case (Cons line lines)
  show ?case
  proof (cases rule: blocks_loop_cases[of line "Some k" cur lines])
    case skip
    with Cons show ?thesis by simp
  next
    case (raise e)
    with Cons.prems show ?thesis by simp
  next
    case (same row)
    then have key: "q_full row = k" by simp
    with Cons.prems(2) have hom: "\<forall>r\<in>set (cur @ [row]). q_full r = k" by simp
    from Cons.prems(3) same(3) key have ne: "snd (blocks_loop (Some k) (cur @ [row]) lines) = None"
      by simp
    from Cons.IH[OF _ hom ne] same(1,3) key show ?thesis by simp
  next
    case (new row)
    then have key: "q_full row \<noteq> k" by auto
    from Cons.prems(3) new(4)
    have ne: "snd (blocks_loop (Some (q_full row)) [row] lines) = None" by simp
    have "fst (blocks_loop (Some (q_full row)) [row] lines)
            = maximal_runs ([row] @ parsed_rows lines)"
      by (rule Cons.IH[OF _ _ ne]) simp_all
    moreover from maximal_runs_prefix[OF Cons.prems(1,2), of "row # parsed_rows lines"] key
    have "maximal_runs (cur @ row # parsed_rows lines)
            = (Some k, cur) # maximal_runs (row # parsed_rows lines)"
      by simp
    ultimately show ?thesis using new(1,4) by simp
  qed
qed

lemma blocks_loop_runs_init:
  "snd (blocks_loop None [] lines) = None \<Longrightarrow>
   fst (blocks_loop None [] lines) = maximal_runs (parsed_rows lines)"
proof (induction lines)
  case Nil
  show ?case by simp
next
  case (Cons line lines)
  show ?case
  proof (cases rule: blocks_loop_cases[of line None "[]" lines])
    case skip
    with Cons show ?thesis by simp
  next
    case (raise e)
    with Cons.prems show ?thesis by simp
  next
    case (same row)
    from Cons.prems same(3)
    have ne: "snd (blocks_loop (Some (q_full row)) [row] lines) = None" by simp
    have "fst (blocks_loop (Some (q_full row)) [row] lines)
            = maximal_runs ([row] @ parsed_rows lines)"
      by (rule blocks_loop_runs_open[OF _ _ ne]) simp_all
    with same(1,3) show ?thesis by simp
  next
    case (new row)
    then show ?thesis by simp
  qed
qed

lemma blocks_loop_rows:
  "b \<in> set (fst (blocks_loop ck cur lines)) \<Longrightarrow> r \<in> set (snd b) \<Longrightarrow>
   r \<in> set cur \<or> (\<exists>l\<in>set lines. parse_line l = Inr (Some r))"
proof (induction lines arbitrary: ck cur)
  case Nil
  then show ?case by (simp split: if_splits)
next
  case (Cons line lines)
  show ?case
  proof (cases rule: blocks_loop_cases[of line ck cur lines])
    case skip
    with Cons.prems Cons.IH[of ck cur] show ?thesis by auto
  next
    case (raise e)
    with Cons.prems show ?thesis by simp
  next
    case (same row)
    with Cons.prems Cons.IH[of "Some (q_full row)" "cur @ [row]"] show ?thesis by auto
  next
    case (new row)
    with Cons.prems Cons.IH[of "Some (q_full row)" "[row]"] show ?thesis by auto
  qed
qed

lemma parse_line_ordered: "parse_line line = Inr (Some r) \<Longrightarrow> start r \<le> stop r"
  by (auto simp: parse_line_def Let_def split: if_splits option.splits)

lemma parse_line_accepts:
  assumes "12 \<le> length (py_split (py_strip line))"
    "py_int (py_split (py_strip line) ! 7) = Some a"
    "py_int (py_split (py_strip line) ! 8) = Some b"
  shows "\<exists>r. parse_line line = Inr (Some r) \<and> start r = min a b \<and> stop r = max a b"
  using assms by (auto simp: parse_line_def Let_def)


lemma ex_parse_l1: "parse_line ex_l1 = Inr (Some ex_r1)" by code_simp
lemma ex_parse_l2: "parse_line ex_l2 = Inr (Some ex_r2)" by code_simp
lemma ex_parse_l3: "parse_line ex_l3 = Inr (Some ex_r3)" by code_simp
lemma ex_parse_blank: "parse_line ex_blank = Inr None" by code_simp
lemma ex_parse_short: "parse_line ex_short = Inr None" by code_simp
lemma ex_parse_bad: "parse_line ex_bad = Inl ValueError" by code_simp

lemma ex_blocks:
  "blocks_by_query [ex_l1, ex_blank, ex_l2, ex_short, ex_l3]
     = ([(Some ''QA|sp'', [ex_r1]), (Some ''QB|sp'', [ex_r2]), (Some ''QA|sp'', [ex_r3])], None)"
  by code_simp

lemma ex_blocks_bad:
  "blocks_by_query [ex_l1, ex_bad, ex_l3] = ([], Some ValueError)"
  by code_simp


lemma blocks_by_query_concat:
  "snd (blocks_by_query lines) = None \<Longrightarrow>
   concat (map snd (fst (blocks_by_query lines))) = parsed_rows lines"
  using blocks_loop_concat[of None "[]" lines] by (simp add: blocks_by_query_def)

lemma blocks_loop_prefix:
  "prefix (concat (map snd (fst (blocks_loop ck cur lines)))) (cur @ parsed_rows lines)"
proof (induction lines arbitrary: ck cur)
  case Nil
  show ?case by simp
next
  case (Cons line lines)
  show ?case
  proof (cases rule: blocks_loop_cases[of line ck cur lines])
    case skip
    with Cons[of ck cur] show ?thesis by simp
  next
    case (raise e)
    then show ?thesis by simp
  next
    case (same row)
    with Cons[of "Some (q_full row)" "cur @ [row]"] show ?thesis by simp
  next
    case (new row)
    with Cons[of "Some (q_full row)" "[row]"] show ?thesis by simp
  qed
qed

lemma blocks_by_query_prefix:
  "prefix (concat (map snd (fst (blocks_by_query lines)))) (parsed_rows lines)"
  using blocks_loop_prefix[of None "[]" lines] by (simp add: blocks_by_query_def)

lemma blocks_by_query_no_error:
  "snd (blocks_by_query lines) = None \<longleftrightarrow> (\<forall>l\<in>set lines. parse_line l \<noteq> Inl ValueError)"
  by (simp add: blocks_by_query_def blocks_loop_no_error)

lemma blocks_by_query_ok: "b \<in> set (fst (blocks_by_query lines)) \<Longrightarrow> block_ok b"
  using blocks_loop_keys[of "[]" None lines] by (simp add: blocks_by_query_def)

lemma blocks_by_query_rows:
  "b \<in> set (fst (blocks_by_query lines)) \<Longrightarrow> r \<in> set (snd b) \<Longrightarrow>
   \<exists>l\<in>set lines. parse_line l = Inr (Some r)"
  using blocks_loop_rows[of b None "[]" lines r] by (simp add: blocks_by_query_def)

text \<open>
  The grouping on inputs the generator reads to the end: when it ends without an
  exception, the blocks it yields are exactly the maximal consecutive runs of the
  successfully parsed rows, in input order, the last run included. Whether or not it
  ends normally, every block yielded is non-empty and keyed by the \<open>q_full\<close> of each
  of its rows, and two consecutive blocks have different keys.
\<close>

lemma blocks_by_query_runs:
  "(snd (blocks_by_query lines) = None \<longrightarrow>
      fst (blocks_by_query lines) = maximal_runs (parsed_rows lines))
   \<and> (\<forall>b\<in>set (fst (blocks_by_query lines)).
         snd b \<noteq> [] \<and> (\<forall>r\<in>set (snd b). fst b = Some (q_full r)))
   \<and> (\<forall>i. Suc i < length (fst (blocks_by_query lines)) \<longrightarrow>
         fst (fst (blocks_by_query lines) ! i) \<noteq> fst (fst (blocks_by_query lines) ! Suc i))"
proof (intro conjI impI ballI allI)
  assume "snd (blocks_by_query lines) = None"
  then show "fst (blocks_by_query lines) = maximal_runs (parsed_rows lines)"
    using blocks_loop_runs_init[of lines] by (simp add: blocks_by_query_def)
next
  fix b assume "b \<in> set (fst (blocks_by_query lines))"
  then have ok: "block_ok b" by (rule blocks_by_query_ok)
  then show "snd b \<noteq> []" by (simp add: block_ok_def)
  fix r assume "r \<in> set (snd b)"
  with ok show "fst b = Some (q_full r)" by (simp add: block_ok_def)
next
  fix i assume i: "Suc i < length (fst (blocks_by_query lines))"
  have "successively (\<lambda>b1 b2. fst b1 \<noteq> fst b2) (fst (blocks_by_query lines))"
    using blocks_loop_adjacent[of "[]" None lines] by (simp add: blocks_by_query_def)
  from successively_nth[OF this i]
  show "fst (fst (blocks_by_query lines) ! i) \<noteq> fst (fst (blocks_by_query lines) ! Suc i)" .
qed

lemma blocks_by_query_runs_example:
  "snd (blocks_by_query [ex_l1, ex_blank, ex_l2, ex_short, ex_l3]) = None
   \<and> maximal_runs (parsed_rows [ex_l1, ex_blank, ex_l2, ex_short, ex_l3])
       = [(Some ''QA|sp'', [ex_r1]), (Some ''QB|sp'', [ex_r2]), (Some ''QA|sp'', [ex_r3])]
   \<and> (Some ''QA|sp'', [ex_r1]) \<in> set (fst (blocks_by_query [ex_l1, ex_blank, ex_l2, ex_short, ex_l3]))
   \<and> Some ''QA|sp'' = Some (q_full ex_r1)
   \<and> Some ''QA|sp'' \<noteq> Some ''QB|sp''"
proof -
  note t = blocks_by_query_runs[of "[ex_l1, ex_blank, ex_l2, ex_short, ex_l3]", unfolded ex_blocks]
  have 1: "maximal_runs (parsed_rows [ex_l1, ex_blank, ex_l2, ex_short, ex_l3])
       = [(Some ''QA|sp'', [ex_r1]), (Some ''QB|sp'', [ex_r2]), (Some ''QA|sp'', [ex_r3])]"
    using conjunct1[OF t] by simp
  have 2: "Some ''QA|sp'' = Some (q_full ex_r1)"
    using conjunct1[OF conjunct2[OF t], THEN bspec, of "(Some ''QA|sp'', [ex_r1])"] by simp
  have 3: "Some ''QA|sp'' \<noteq> Some ''QB|sp''"
    using conjunct2[OF conjunct2[OF t], THEN spec, of 0] by simp
  from 1 2 3 show ?thesis by (simp add: ex_blocks)
qed

text \<open>
  The generator ends without an exception exactly when \<open>parse_line\<close> raises on no
  line; then the rows of the yielded blocks, concatenated in yield order, are the
  successfully parsed rows in input order. On every input, those rows are an initial
  segment of the successfully parsed rows.
\<close>

lemma blocks_by_query_preserves_rows:
  "(snd (blocks_by_query lines) = None \<longleftrightarrow> (\<forall>l\<in>set lines. parse_line l \<noteq> Inl ValueError))
   \<and> (snd (blocks_by_query lines) = None \<longrightarrow>
        concat (map snd (fst (blocks_by_query lines))) = parsed_rows lines)
   \<and> prefix (concat (map snd (fst (blocks_by_query lines)))) (parsed_rows lines)"
  using blocks_by_query_no_error[of lines] blocks_by_query_concat[of lines]
    blocks_by_query_prefix[of lines]
  by blast

lemma blocks_by_query_preserves_rows_example:
  "snd (blocks_by_query [ex_l1, ex_blank, ex_l2, ex_short, ex_l3]) = None
   \<and> parse_line ex_l1 \<noteq> Inl ValueError \<and> parse_line ex_blank \<noteq> Inl ValueError
   \<and> parse_line ex_l2 \<noteq> Inl ValueError \<and> parse_line ex_short \<noteq> Inl ValueError
   \<and> parse_line ex_l3 \<noteq> Inl ValueError
   \<and> concat (map snd (fst (blocks_by_query [ex_l1, ex_blank, ex_l2, ex_short, ex_l3])))
       = [ex_r1, ex_r2, ex_r3]
   \<and> parsed_rows [ex_l1, ex_blank, ex_l2, ex_short, ex_l3] = [ex_r1, ex_r2, ex_r3]"
proof -
  note t = blocks_by_query_preserves_rows[of "[ex_l1, ex_blank, ex_l2, ex_short, ex_l3]",
             unfolded ex_blocks]
  have 0: "snd ([(Some ''QA|sp'', [ex_r1]), (Some ''QB|sp'', [ex_r2]), (Some ''QA|sp'', [ex_r3])],
                None :: py_error option) = None" by simp
  have 1: "\<forall>l\<in>set [ex_l1, ex_blank, ex_l2, ex_short, ex_l3]. parse_line l \<noteq> Inl ValueError"
    using conjunct1[OF t] 0 by blast
  have 2: "parsed_rows [ex_l1, ex_blank, ex_l2, ex_short, ex_l3] = [ex_r1, ex_r2, ex_r3]"
    using conjunct1[OF conjunct2[OF t], THEN mp, OF 0] by simp
  from 1 2 show ?thesis by (simp add: ex_blocks)
qed

text \<open>
  C8. A line of at least twelve fields whose columns 8 and 9 are integers \<open>a\<close> and
  \<open>b\<close> is accepted, with \<open>start = min a b\<close> and \<open>stop = max a b\<close>; every row
  \<open>parse_line\<close> returns has \<open>start \<le> stop\<close>; and so has every member of every
  cluster built from a block that \<open>blocks_by_query\<close> yields.
\<close>

theorem parse_line_normalizes:
  "(12 \<le> length (py_split (py_strip line))
      \<and> py_int (py_split (py_strip line) ! 7) = Some a
      \<and> py_int (py_split (py_strip line) ! 8) = Some b \<longrightarrow>
      (\<exists>r. parse_line line = Inr (Some r) \<and> start r = min a b \<and> stop r = max a b))
   \<and> (parse_line line = Inr (Some r) \<longrightarrow> start r \<le> stop r)
   \<and> (\<forall>blk\<in>set (fst (blocks_by_query lines)).
         \<forall>c\<in>set (build_operons (snd blk) max_gap require_same_strand).
           \<forall>m\<in>set c. start m \<le> stop m)"
proof (intro conjI impI ballI)
  assume "12 \<le> length (py_split (py_strip line))
      \<and> py_int (py_split (py_strip line) ! 7) = Some a
      \<and> py_int (py_split (py_strip line) ! 8) = Some b"
  then show "\<exists>r. parse_line line = Inr (Some r) \<and> start r = min a b \<and> stop r = max a b"
    using parse_line_accepts[of line a b] by blast
next
  assume "parse_line line = Inr (Some r)"
  then show "start r \<le> stop r" by (rule parse_line_ordered)
next
  fix blk c m
  assume blk: "blk \<in> set (fst (blocks_by_query lines))"
    and c: "c \<in> set (build_operons (snd blk) max_gap require_same_strand)"
    and m: "m \<in> set c"
  from c m have "m \<in> set (concat (build_operons (snd blk) max_gap require_same_strand))"
    by auto
  then have "m \<in> set (snd blk)"
    by (simp only: build_operons_concat rows_sorted_def set_sort)
  from blocks_by_query_rows[OF blk this] obtain l where "parse_line l = Inr (Some m)" by blast
  then show "start m \<le> stop m" by (rule parse_line_ordered)
qed

lemma ex_fields_l2:
  "py_split (py_strip ex_l2)
     = [''QB|sp'', ''x'', ''x'', ''+'', ''x'', ''x'', ''x'', ''300'', ''250'', ''P2'', ''C1'', ''G1'']"
  by code_simp

lemma ex_int_300: "py_int ''300'' = Some 300" by code_simp
lemma ex_int_250: "py_int ''250'' = Some 250" by code_simp

lemma ex_block_build: "build_operons [ex_r2] 50 False = [[ex_r2]]"
  by code_simp

theorem parse_line_normalizes_witness:
  "12 \<le> length (py_split (py_strip ex_l2))
   \<and> py_int (py_split (py_strip ex_l2) ! 7) = Some 300
   \<and> py_int (py_split (py_strip ex_l2) ! 8) = Some 250
   \<and> parse_line ex_l2 = Inr (Some ex_r2)
   \<and> start ex_r2 = 250 \<and> stop ex_r2 = 300 \<and> start ex_r2 \<le> stop ex_r2
   \<and> (Some ''QB|sp'', [ex_r2]) \<in> set (fst (blocks_by_query [ex_l1, ex_blank, ex_l2, ex_short, ex_l3]))
   \<and> [ex_r2] \<in> set (build_operons [ex_r2] 50 False)"
proof -
  note t = parse_line_normalizes[of ex_l2 300 250 ex_r2 "[ex_l1, ex_blank, ex_l2, ex_short, ex_l3]"
             50 False, unfolded ex_blocks]
  have h: "12 \<le> length (py_split (py_strip ex_l2))
      \<and> py_int (py_split (py_strip ex_l2) ! 7) = Some 300
      \<and> py_int (py_split (py_strip ex_l2) ! 8) = Some 250"
    by (simp add: ex_fields_l2 ex_int_300 ex_int_250)
  from conjunct1[OF t, THEN mp, OF h]
  have 1: "start ex_r2 = 250 \<and> stop ex_r2 = 300" by (simp add: ex_parse_l2)
  from conjunct1[OF conjunct2[OF t], THEN mp, OF ex_parse_l2]
  have 2: "start ex_r2 \<le> stop ex_r2" .
  from conjunct2[OF conjunct2[OF t], THEN bspec, of "(Some ''QB|sp'', [ex_r2])"]
  have 3: "start ex_r2 \<le> stop ex_r2" by (simp add: ex_block_build)
  from h 1 2 show ?thesis by (simp add: ex_parse_l2 ex_blocks ex_block_build)
qed

section \<open>Properties of \<open>main\<close>\<close>

lemma py_min_Min: "xs \<noteq> [] \<Longrightarrow> py_min xs = Inr (Min (set xs))"
proof (cases xs)
  case Nil
  assume "xs \<noteq> []"
  with Nil show ?thesis by simp
next
  case (Cons a list)
  have "fold min list a = Min (set (a # list))" by (rule Min.set_eq_fold[symmetric])
  with Cons show ?thesis by simp
qed

lemma py_max_Max: "xs \<noteq> [] \<Longrightarrow> py_max xs = Inr (Max (set xs))"
proof (cases xs)
  case Nil
  assume "xs \<noteq> []"
  with Nil show ?thesis by simp
next
  case (Cons a list)
  have "fold max list a = Max (set (a # list))" by (rule Max.set_eq_fold[symmetric])
  with Cons show ?thesis by simp
qed

lemma operon_line_Some:
  "members \<noteq> [] \<Longrightarrow>
   operon_line (Some qf) query_id species assembly0 members
     = Inr (record_line qf query_id species assembly0 members)"
  by (cases members)
     (simp_all add: operon_line_def record_line_def record_fields_def py_min_Min py_max_Max
        Let_def del: py_min.simps py_max.simps)

lemma fst_out_write [simp]: "fst (out_write l rest) = l # fst rest"
  by (simp add: out_write_def)

lemma snd_out_write [simp]: "snd (out_write l rest) = snd rest"
  by (simp add: out_write_def)

lemma no_non_self: "(length (filter (\<lambda>r. prot_id r \<noteq> q) c) = 0) \<longleftrightarrow> (\<forall>r\<in>set c. prot_id r = q)"
  by (simp add: filter_empty_conv)

lemma report_loop_skip_one:
  "\<forall>r\<in>set c. prot_id r = query_id \<Longrightarrow>
   report_loop qfull query_id species assembly0 (c # ops)
     = report_loop qfull query_id species assembly0 ops"
  by (simp add: Let_def filter_empty_conv)

lemma report_loop_report_one:
  "\<exists>r\<in>set c. prot_id r \<noteq> query_id \<Longrightarrow>
   report_loop (Some qf) query_id species assembly0 (c # ops)
     = out_write (record_line qf query_id species assembly0 c)
         (report_loop (Some qf) query_id species assembly0 ops)"
proof -
  assume a: "\<exists>r\<in>set c. prot_id r \<noteq> query_id"
  then have "c \<noteq> []" by auto
  from operon_line_Some[OF this, of qf query_id species assembly0] a show ?thesis
    by (auto simp add: Let_def filter_empty_conv)
qed

lemma report_loop_Some:
  "report_loop (Some qf) query_id species assembly0 ops
     = (map (record_line qf query_id species assembly0)
          (filter (\<lambda>c. \<exists>r\<in>set c. prot_id r \<noteq> query_id) ops), None)"
proof (induction ops)
  case Nil
  show ?case by simp
next
  case (Cons c ops)
  show ?case
  proof (cases "\<exists>r\<in>set c. prot_id r \<noteq> query_id")
    case True
    from report_loop_report_one[OF True, of qf species assembly0 ops] Cons True
    show ?thesis by (simp add: out_write_def)
  next
    case False
    then have "\<forall>r\<in>set c. prot_id r = query_id" by simp
    from report_loop_skip_one[OF this, of "Some qf" species assembly0 ops] Cons False
    show ?thesis by simp
  qed
qed


lemma qualifying_mem:
  "qualifying q c \<longleftrightarrow> q \<in> set (map prot_id c) \<and> (\<exists>r\<in>set c. prot_id r \<noteq> q)"
  by (force simp: qualifying_def)

lemma report_operons_Some:
  "report_operons (Some qf) row0 ops
     = (map (record_line qf (q_id row0) (q_species row0) (assembly row0))
          (filter (qualifying (q_id row0)) ops), None)"
proof -
  have "filter (\<lambda>c. \<exists>r\<in>set c. prot_id r \<noteq> q_id row0)
          (filter (\<lambda>op. q_id row0 \<in> set (map prot_id op)) ops)
        = filter (qualifying (q_id row0)) ops"
    by (simp add: qualifying_mem conj_commute cong: filter_cong)
  then show ?thesis
    by (simp add: report_operons_def report_loop_Some Let_def)
qed

lemma process_block_Some:
  "rows \<noteq> [] \<Longrightarrow>
   process_block g s (Some qf, rows)
     = (map (record_line qf (q_id (hd rows)) (q_species (hd rows)) (assembly (hd rows)))
          (filter (qualifying (q_id (hd rows))) (build_operons rows g s)), None)"
  by (cases rows) (simp_all add: process_block_def report_operons_Some)

lemma report_loop_skip:
  "\<forall>r\<in>set c. prot_id r = query_id \<Longrightarrow>
   report_loop qfull query_id species assembly0 (ops1 @ c # ops2)
     = report_loop qfull query_id species assembly0 (ops1 @ ops2)"
proof (induction ops1)
  case Nil
  then show ?case by (simp add: report_loop_skip_one)
next
  case (Cons a ops1)
  then show ?case by (simp add: Let_def split: sum.split)
qed

lemma report_operons_skip:
  assumes "\<forall>r\<in>set c. prot_id r = q_id row0"
  shows "report_operons qfull row0 (ops1 @ c # ops2) = report_operons qfull row0 (ops1 @ ops2)"
proof (cases "q_id row0 \<in> set (map prot_id c)")
  case True
  with report_loop_skip[OF assms, of qfull "q_species row0" "assembly row0"
         "filter (\<lambda>op. q_id row0 \<in> set (map prot_id op)) ops1"
         "filter (\<lambda>op. q_id row0 \<in> set (map prot_id op)) ops2"]
  show ?thesis by (simp add: report_operons_def Let_def)
next
  case False
  then show ?thesis by (simp add: report_operons_def Let_def)
qed

lemma report_loop_all_self:
  "\<forall>c\<in>set ops. \<forall>r\<in>set c. prot_id r = query_id \<Longrightarrow>
   report_loop qfull query_id species assembly0 ops = ([], None)"
  by (induction ops) (simp_all add: report_loop_skip_one del: report_loop.simps(2))


lemma process_block_yielded:
  assumes "b \<in> set (fst (blocks_by_query lines))"
  shows "process_block g s b
           = (map (record_line (q_full (hd (snd b))) (q_id (hd (snd b)))
                     (q_species (hd (snd b))) (assembly (hd (snd b))))
                (filter (qualifying (q_id (hd (snd b)))) (build_operons (snd b) g s)),
              None)"
proof -
  from assms have ok: "block_ok b" by (rule blocks_by_query_ok)
  then have ne: "snd b \<noteq> []" by (simp add: block_ok_def)
  then have "hd (snd b) \<in> set (snd b)" by simp
  with ok have "fst b = Some (q_full (hd (snd b)))" by (simp add: block_ok_def)
  then have "b = (Some (q_full (hd (snd b))), snd b)" by (cases b) simp
  with process_block_Some[OF ne, of g s "q_full (hd (snd b))"] show ?thesis by simp
qed

text \<open>
  C4. For a block with rows, the lines written are, in cluster order, one line for each
  cluster of \<open>build_operons\<close> that holds a member with the query's protein id and a
  member with another protein id, and nothing else. The line carries the key, the query
  id, species and assembly of the first row, the contig of the cluster's first member,
  the least start, the greatest stop, the number of members, the members' protein ids
  and their \<open>id:start-stop\<close> strings joined by commas in cluster order, and \<open>YES\<close>.
  This is what \<open>main\<close> writes for every block that \<open>blocks_by_query\<close> yields.
\<close>

theorem qualifying_clusters_reported:
  "(rows \<noteq> [] \<longrightarrow>
      process_block max_gap require_same_strand (Some qf, rows)
        = (map (record_line qf (q_id (hd rows)) (q_species (hd rows)) (assembly (hd rows)))
             (filter (qualifying (q_id (hd rows)))
                (build_operons rows max_gap require_same_strand)),
           None))
   \<and> (\<forall>b\<in>set (fst (blocks_by_query lines)).
         process_block max_gap require_same_strand b
           = (map (record_line (q_full (hd (snd b))) (q_id (hd (snd b)))
                     (q_species (hd (snd b))) (assembly (hd (snd b))))
                (filter (qualifying (q_id (hd (snd b))))
                   (build_operons (snd b) max_gap require_same_strand)),
              None))"
  by (simp add: process_block_Some process_block_yielded)

lemma ex_multi_block:
  "process_block 50 False (Some ''Q1#1|E_coli'', [ex_a4, ex_a3, ex_a2, ex_a1, ex_s1, ex_s2])
       = ([join tab [''Q1#1|E_coli'', ''Q1#1'', ''E_coli'', ''GCF_1'', ''C1'', ''100'', ''260'', ''2'',
                     ''N1#1,Q1#1'', ''N1#1:100-200,Q1#1:210-260'', ''YES''] @ newline,
           join tab [''Q1#1|E_coli'', ''Q1#1'', ''E_coli'', ''GCF_1'', ''C2'', ''10'', ''90'', ''2'',
                     ''N3#1,Q1#1'', ''N3#1:10-50,Q1#1:60-90'', ''YES''] @ newline],
          None)"
  by code_simp

lemma ex_multi_build:
  "build_operons [ex_a4, ex_a3, ex_a2, ex_a1, ex_s1, ex_s2] 50 False
     = [[ex_a1, ex_a2], [ex_a3], [ex_a4, ex_s1], [ex_s2]]"
  by code_simp

theorem qualifying_clusters_reported_witness:
  "[ex_a4, ex_a3, ex_a2, ex_a1, ex_s1, ex_s2] \<noteq> []
   \<and> build_operons [ex_a4, ex_a3, ex_a2, ex_a1, ex_s1, ex_s2] 50 False
       = [[ex_a1, ex_a2], [ex_a3], [ex_a4, ex_s1], [ex_s2]]
   \<and> map (record_line ''Q1#1|E_coli'' (q_id ex_a4) (q_species ex_a4) (assembly ex_a4))
         (filter (qualifying (q_id ex_a4)) [[ex_a1, ex_a2], [ex_a3], [ex_a4, ex_s1], [ex_s2]])
       = [join tab [''Q1#1|E_coli'', ''Q1#1'', ''E_coli'', ''GCF_1'', ''C1'', ''100'', ''260'', ''2'',
                    ''N1#1,Q1#1'', ''N1#1:100-200,Q1#1:210-260'', ''YES''] @ newline,
          join tab [''Q1#1|E_coli'', ''Q1#1'', ''E_coli'', ''GCF_1'', ''C2'', ''10'', ''90'', ''2'',
                    ''N3#1,Q1#1'', ''N3#1:10-50,Q1#1:60-90'', ''YES''] @ newline]"
proof -
  have ne: "[ex_a4, ex_a3, ex_a2, ex_a1, ex_s1, ex_s2] \<noteq> []" by simp
  from qualifying_clusters_reported[of "[ex_a4, ex_a3, ex_a2, ex_a1, ex_s1, ex_s2]" 50 False
         "''Q1#1|E_coli''" "[]", THEN conjunct1, THEN mp, OF ne,
         unfolded ex_multi_block ex_multi_build]
  have "map (record_line ''Q1#1|E_coli'' (q_id ex_a4) (q_species ex_a4) (assembly ex_a4))
         (filter (qualifying (q_id ex_a4)) [[ex_a1, ex_a2], [ex_a3], [ex_a4, ex_s1], [ex_s2]])
       = [join tab [''Q1#1|E_coli'', ''Q1#1'', ''E_coli'', ''GCF_1'', ''C1'', ''100'', ''260'', ''2'',
                    ''N1#1,Q1#1'', ''N1#1:100-200,Q1#1:210-260'', ''YES''] @ newline,
          join tab [''Q1#1|E_coli'', ''Q1#1'', ''E_coli'', ''GCF_1'', ''C2'', ''10'', ''90'', ''2'',
                    ''N3#1,Q1#1'', ''N3#1:10-50,Q1#1:60-90'', ''YES''] @ newline]"
    by simp
  with ne ex_multi_build show ?thesis by (intro conjI)
qed

text \<open>
  C5. A cluster none of whose members has a protein id other than the query's produces
  no output: the report is the same with the cluster removed. A block all of whose
  clusters holding the query are of that kind produces no line at all.
\<close>

theorem self_only_cluster_not_reported:
  "((\<forall>r\<in>set c. prot_id r = q_id row0) \<longrightarrow>
      report_operons qfull row0 (ops1 @ c # ops2) = report_operons qfull row0 (ops1 @ ops2))
   \<and> (rows \<noteq> []
        \<and> (\<forall>c\<in>set (build_operons rows max_gap require_same_strand).
              (\<exists>r\<in>set c. prot_id r = q_id (hd rows)) \<longrightarrow>
              (\<forall>r\<in>set c. prot_id r = q_id (hd rows))) \<longrightarrow>
        process_block max_gap require_same_strand (qfull, rows) = ([], None))"
proof (intro conjI impI)
  assume "\<forall>r\<in>set c. prot_id r = q_id row0"
  then show "report_operons qfull row0 (ops1 @ c # ops2) = report_operons qfull row0 (ops1 @ ops2)"
    by (rule report_operons_skip)
next
  let ?ops = "build_operons rows max_gap require_same_strand"
  assume a: "rows \<noteq> []
        \<and> (\<forall>c\<in>set ?ops. (\<exists>r\<in>set c. prot_id r = q_id (hd rows)) \<longrightarrow>
              (\<forall>r\<in>set c. prot_id r = q_id (hd rows)))"
  have "\<forall>c\<in>set (filter (\<lambda>op. q_id (hd rows) \<in> set (map prot_id op)) ?ops).
               \<forall>r\<in>set c. prot_id r = q_id (hd rows)"
  proof (intro ballI)
    fix c r
    assume c: "c \<in> set (filter (\<lambda>op. q_id (hd rows) \<in> set (map prot_id op)) ?ops)"
      and r: "r \<in> set c"
    from c have c1: "c \<in> set ?ops" and "q_id (hd rows) \<in> prot_id ` set c" by simp_all
    then obtain r' where "r' \<in> set c" "prot_id r' = q_id (hd rows)" by force
    with a c1 r show "prot_id r = q_id (hd rows)" by blast
  qed
  from report_loop_all_self[OF this]
  have "report_operons qfull (hd rows) ?ops = ([], None)"
    by (simp add: report_operons_def Let_def)
  with a show "process_block max_gap require_same_strand (qfull, rows) = ([], None)"
    by (cases rows) (simp_all add: process_block_def)
qed

lemma ex_alone_build: "build_operons [ex_n, ex_q] 50 False = [[ex_n], [ex_q]]"
  by code_simp

lemma ex_self_rows: "prot_id ex_s2 = q_id ex_a4" "prot_id ex_q = q_id ex_n" "prot_id ex_n \<noteq> q_id ex_n"
  by (simp_all add: ex_s2_def ex_a4_def ex_q_def ex_n_def ex_row_def before_bar_def)

theorem self_only_cluster_not_reported_witness:
  "prot_id ex_s2 = q_id ex_a4
   \<and> report_operons (Some ''Q1#1|E_coli'') ex_a4 ([[ex_a1, ex_a2], [ex_a3], [ex_a4, ex_s1]] @ [ex_s2] # [])
       = report_operons (Some ''Q1#1|E_coli'') ex_a4 ([[ex_a1, ex_a2], [ex_a3], [ex_a4, ex_s1]] @ [])
   \<and> build_operons [ex_n, ex_q] 50 False = [[ex_n], [ex_q]]
   \<and> prot_id ex_q = q_id ex_n \<and> prot_id ex_n \<noteq> q_id ex_n
   \<and> process_block 50 False (Some ''Q1#1|E_coli'', [ex_n, ex_q]) = ([], None)"
proof -
  have 1: "report_operons (Some ''Q1#1|E_coli'') ex_a4 ([[ex_a1, ex_a2], [ex_a3], [ex_a4, ex_s1]] @ [ex_s2] # [])
       = report_operons (Some ''Q1#1|E_coli'') ex_a4 ([[ex_a1, ex_a2], [ex_a3], [ex_a4, ex_s1]] @ [])"
    using self_only_cluster_not_reported[of "[ex_s2]" ex_a4 "Some ''Q1#1|E_coli''"
            "[[ex_a1, ex_a2], [ex_a3], [ex_a4, ex_s1]]" "[]" "[ex_n, ex_q]" 50 False,
            THEN conjunct1] ex_self_rows(1)
    by simp
  have 2: "process_block 50 False (Some ''Q1#1|E_coli'', [ex_n, ex_q]) = ([], None)"
    using self_only_cluster_not_reported[of "[ex_s2]" ex_a4 "Some ''Q1#1|E_coli''"
            "[[ex_a1, ex_a2], [ex_a3], [ex_a4, ex_s1]]" "[]" "[ex_n, ex_q]" 50 False,
            THEN conjunct2, unfolded ex_alone_build] ex_self_rows(2,3)
    by simp
  from ex_self_rows 1 ex_alone_build 2 show ?thesis by (intro conjI)
qed


lemma parse_line_raises:
  assumes "12 \<le> length (py_split (py_strip line))"
    "py_int (py_split (py_strip line) ! 7) = None \<or> py_int (py_split (py_strip line) ! 8) = None"
  shows "parse_line line = Inl ValueError"
  using assms by (auto simp: parse_line_def Let_def split: option.splits)

lemma parse_line_error: "parse_line line = Inl e \<Longrightarrow> e = ValueError"
  by (auto simp: parse_line_def Let_def split: if_splits option.splits)

lemma blocks_loop_error:
  "snd (blocks_loop ck cur lines) = Some e \<Longrightarrow> e = ValueError"
proof (induction lines arbitrary: ck cur)
  case Nil
  then show ?case by (simp split: if_splits)
next
  case (Cons line lines)
  show ?case
  proof (cases rule: blocks_loop_cases[of line ck cur lines])
    case skip
    with Cons show ?thesis by simp
  next
    case (raise e')
    with Cons.prems parse_line_error[of line e'] show ?thesis by simp
  next
    case (same row)
    with Cons show ?thesis by simp
  next
    case (new row)
    with Cons.prems Cons.IH[of "Some (q_full row)" "[row]"] show ?thesis by simp
  qed
qed

lemma process_block_ok: "block_ok b \<Longrightarrow> snd (process_block g s b) = None"
proof -
  assume ok: "block_ok b"
  then have ne: "snd b \<noteq> []" by (simp add: block_ok_def)
  then have "hd (snd b) \<in> set (snd b)" by simp
  with ok have "fst b = Some (q_full (hd (snd b)))" by (simp add: block_ok_def)
  then have "b = (Some (q_full (hd (snd b))), snd b)" by (cases b) simp
  with process_block_Some[OF ne, of g s "q_full (hd (snd b))"] show ?thesis by simp
qed

lemma main_loop_ok: "\<forall>b\<in>set blocks. block_ok b \<Longrightarrow> snd (main_loop g s blocks) = None"
proof (induction blocks)
  case Nil
  show ?case by simp
next
  case (Cons b blocks)
  then have "snd (process_block g s b) = None" "snd (main_loop g s blocks) = None"
    by (simp_all add: process_block_ok)
  then show ?case by (cases "process_block g s b"; cases "main_loop g s blocks") simp
qed

text \<open>An exception of the generator is the only one \<open>main\<close> can end with.\<close>

lemma main_error: "snd (main g s lines) = snd (blocks_by_query lines)"
proof -
  obtain blocks e where b: "blocks_by_query lines = (blocks, e)" by (cases "blocks_by_query lines")
  then have "\<forall>b\<in>set blocks. block_ok b" using blocks_by_query_ok[of _ lines] by simp
  then have "snd (main_loop g s blocks) = None" by (rule main_loop_ok)
  with b show ?thesis by (cases "main_loop g s blocks") (simp add: main_def)
qed

lemma main_raises:
  assumes "l \<in> set lines" "parse_line l = Inl ValueError"
  shows "snd (main g s lines) = Some ValueError"
proof -
  from assms blocks_by_query_no_error[of lines] have "snd (blocks_by_query lines) \<noteq> None" by blast
  then obtain e where e: "snd (blocks_by_query lines) = Some e" by auto
  then have "e = ValueError" using blocks_loop_error[of None "[]" lines e]
    by (simp add: blocks_by_query_def)
  with e show ?thesis by (simp add: main_error)
qed

text \<open>
  C3. A line of twelve fields whose column 8 is not an integer is not skipped:
  \<open>parse_line\<close> raises \<open>ValueError\<close>, the generator ends with it before yielding the
  block it was accumulating, and \<open>main\<close> ends with it after writing the header only.
  Without that line the same input yields one block of two rows; with a short line in
  its place the input yields that block too.
\<close>

theorem non_integer_coordinate_raises:
  "parse_line ex_bad = Inl ValueError
   \<and> blocks_by_query [ex_l1, ex_bad, ex_l3] = ([], Some ValueError)
   \<and> main 50 False [ex_l1, ex_bad, ex_l3] = ([header], Some ValueError)
   \<and> blocks_by_query [ex_l1, ex_l3] = ([(Some ''QA|sp'', [ex_r1, ex_r3])], None)
   \<and> blocks_by_query [ex_l1, ex_short, ex_l3] = ([(Some ''QA|sp'', [ex_r1, ex_r3])], None)"
proof (intro conjI)
  show "parse_line ex_bad = Inl ValueError" by (rule ex_parse_bad)
  show "blocks_by_query [ex_l1, ex_bad, ex_l3] = ([], Some ValueError)" by (rule ex_blocks_bad)
  show "main 50 False [ex_l1, ex_bad, ex_l3] = ([header], Some ValueError)"
    by (simp add: main_def ex_blocks_bad)
  show "blocks_by_query [ex_l1, ex_l3] = ([(Some ''QA|sp'', [ex_r1, ex_r3])], None)"
    by code_simp
  show "blocks_by_query [ex_l1, ex_short, ex_l3] = ([(Some ''QA|sp'', [ex_r1, ex_r3])], None)"
    by code_simp
qed

lemma ex_blocks_bad_late:
  "blocks_by_query [ex_l1, ex_l2, ex_bad, ex_l3]
     = ([(Some ''QA|sp'', [ex_r1])], Some ValueError)"
  by code_simp

lemma ex_parsed_bad: "parsed_rows [ex_l1, ex_bad, ex_l3] = [ex_r1, ex_r3]"
  by (simp add: ex_parse_l1 ex_parse_bad ex_parse_l3)

lemma ex_parsed_bad_late: "parsed_rows [ex_l1, ex_l2, ex_bad, ex_l3] = [ex_r1, ex_r2, ex_r3]"
  by (simp add: ex_parse_l1 ex_parse_l2 ex_parse_bad ex_parse_l3)

lemma ex_runs_bad: "maximal_runs [ex_r1, ex_r3] = [(Some ''QA|sp'', [ex_r1, ex_r3])]"
  by code_simp

lemma ex_runs_bad_late:
  "maximal_runs [ex_r1, ex_r2, ex_r3]
     = [(Some ''QA|sp'', [ex_r1]), (Some ''QB|sp'', [ex_r2]), (Some ''QA|sp'', [ex_r3])]"
  by code_simp

text \<open>
  C2. On an input with a line of twelve fields whose column 8 is not an integer, the
  blocks yielded are not the maximal runs of the successfully parsed rows. For the lines
  \<open>ex_l1, ex_bad, ex_l3\<close> the rows parsed form one run of two rows, and the generator
  yields nothing. For \<open>ex_l1, ex_l2, ex_bad, ex_l3\<close> the rows form three runs; the
  generator yields the first and ends with \<open>ValueError\<close>, so that the block it was
  accumulating is never yielded.
\<close>

theorem runs_not_yielded_when_int_raises:
  "maximal_runs (parsed_rows [ex_l1, ex_bad, ex_l3]) = [(Some ''QA|sp'', [ex_r1, ex_r3])]
   \<and> fst (blocks_by_query [ex_l1, ex_bad, ex_l3]) = []
   \<and> maximal_runs (parsed_rows [ex_l1, ex_l2, ex_bad, ex_l3])
       = [(Some ''QA|sp'', [ex_r1]), (Some ''QB|sp'', [ex_r2]), (Some ''QA|sp'', [ex_r3])]
   \<and> blocks_by_query [ex_l1, ex_l2, ex_bad, ex_l3]
       = ([(Some ''QA|sp'', [ex_r1])], Some ValueError)"
proof (intro conjI)
  show "maximal_runs (parsed_rows [ex_l1, ex_bad, ex_l3]) = [(Some ''QA|sp'', [ex_r1, ex_r3])]"
    by (simp only: ex_parsed_bad ex_runs_bad)
  show "fst (blocks_by_query [ex_l1, ex_bad, ex_l3]) = []"
    by (simp add: ex_blocks_bad)
  show "maximal_runs (parsed_rows [ex_l1, ex_l2, ex_bad, ex_l3])
       = [(Some ''QA|sp'', [ex_r1]), (Some ''QB|sp'', [ex_r2]), (Some ''QA|sp'', [ex_r3])]"
    by (simp only: ex_parsed_bad_late ex_runs_bad_late)
  show "blocks_by_query [ex_l1, ex_l2, ex_bad, ex_l3]
       = ([(Some ''QA|sp'', [ex_r1])], Some ValueError)"
    by (rule ex_blocks_bad_late)
qed

text \<open>
  C6. On an input with a line of twelve fields whose column 8 is not an integer, rows
  are lost that no skip accounts for. For the lines \<open>ex_l1, ex_bad, ex_l3\<close> the
  successfully parsed rows are \<open>ex_r1, ex_r3\<close>, the first of them parsed before the
  exception, and the yielded blocks hold no row at all.
\<close>

theorem rows_lost_when_int_raises:
  "parse_line ex_l1 = Inr (Some ex_r1)
   \<and> parse_line ex_l3 = Inr (Some ex_r3)
   \<and> parsed_rows [ex_l1, ex_bad, ex_l3] = [ex_r1, ex_r3]
   \<and> concat (map snd (fst (blocks_by_query [ex_l1, ex_bad, ex_l3]))) = []
   \<and> concat (map snd (fst (blocks_by_query [ex_l1, ex_bad, ex_l3])))
       \<noteq> parsed_rows [ex_l1, ex_bad, ex_l3]"
  by (simp add: ex_parse_l1 ex_parse_l3 ex_parsed_bad ex_blocks_bad del: parsed_rows.simps)

end
